(* ===== verification/Prelude.thy ===== *)
theory Prelude imports Main "HOL-Library.Word" begin

text \<open>
  Shared vocabulary of the development: the machine integers of the crate, the outcome type of
  every modelled Rust function, its sequencing combinators (\<^theory_text>\<open>and_then\<close> for the question mark
  operator, \<^theory_text>\<open>map_err\<close> for \<^verbatim>\<open>Result::map_err\<close>) and the equations that let the simplifier
  take a composed computation apart.

  A Rust function that can fail, panic or block is a HOL function from a state to a
  \<^theory_text>\<open>run\<close>:
    \<^item> \<open>Ok x w\<close>: it returned \<open>x\<close> and left the state \<open>w\<close>;
    \<^item> \<open>Err e w\<close>: it returned the error \<open>e\<close> and left the state \<open>w\<close>;
    \<^item> \<open>Panic w\<close>: it panicked with the state \<open>w\<close>;
    \<^item> \<open>Hang\<close>: it never returns (a read that blocks forever, a loop that never ends).
\<close>

section \<open>Machine integers\<close>

type_synonym u8 = "8 word"
type_synonym u16 = "16 word"
type_synonym u32 = "32 word"
type_synonym i32 = "32 word"
type_synonym bytes = "u8 list"

section \<open>Outcomes\<close>

datatype ('e, 'a, 'w) run = Ok 'a 'w | Err 'e 'w | Panic 'w | Hang

fun and_then :: "('e, 'a, 'w) run \<Rightarrow> ('a \<Rightarrow> 'w \<Rightarrow> ('e, 'b, 'w) run) \<Rightarrow> ('e, 'b, 'w) run" where
  "and_then (Ok x w) f = f x w"
| "and_then (Err e w) f = Err e w"
| "and_then (Panic w) f = Panic w"
| "and_then Hang f = Hang"

fun map_err :: "('e \<Rightarrow> 'f) \<Rightarrow> ('e, 'a, 'w) run \<Rightarrow> ('f, 'a, 'w) run" where
  "map_err g (Ok x w) = Ok x w"
| "map_err g (Err e w) = Err (g e) w"
| "map_err g (Panic w) = Panic w"
| "map_err g Hang = Hang"

fun returns :: "('e, 'a, 'w) run \<Rightarrow> bool" where
  "returns Hang = False"
| "returns _ = True"

fun final :: "('e, 'a, 'w) run \<Rightarrow> 'w option" where
  "final (Ok x w) = Some w"
| "final (Err e w) = Some w"
| "final (Panic w) = Some w"
| "final Hang = None"

text \<open>A loop that may not end is a partial function into \<^typ>\<open>'a option\<close>; its non-returning
  value becomes \<open>Hang\<close>.\<close>

definition unhang :: "('e, 'a, 'w) run option \<Rightarrow> ('e, 'a, 'w) run" where
  "unhang r = (case r of None \<Rightarrow> Hang | Some x \<Rightarrow> x)"

text \<open>A \<^verbatim>\<open>Result\<close> computed without effects is a sum, \<open>Inl\<close> for the error; \<open>lift_result\<close> is
  the question mark applied to it in a state.\<close>

fun lift_result :: "'e + 'a \<Rightarrow> 'w \<Rightarrow> ('e, 'a, 'w) run" where
  "lift_result (Inl e) w = Err e w"
| "lift_result (Inr x) w = Ok x w"

text \<open>The same outcome seen through an abstraction of the state.\<close>

abbreviation map_state :: "('w \<Rightarrow> 'v) \<Rightarrow> ('e, 'a, 'w) run \<Rightarrow> ('e, 'a, 'v) run" where
  "map_state f \<equiv> map_run (\<lambda>e. e) (\<lambda>x. x) f"

named_theorems run_iffs \<open>equations that decompose a composed outcome\<close>
named_theorems world_simps \<open>what each operation leaves unchanged\<close>

lemma and_then_Ok_iff [run_iffs]:
  "and_then m f = Ok y w \<longleftrightarrow> (\<exists>x w1. m = Ok x w1 \<and> f x w1 = Ok y w)"
  by (cases m) auto

lemma and_then_Err_iff [run_iffs]:
  "and_then m f = Err e w \<longleftrightarrow> m = Err e w \<or> (\<exists>x w1. m = Ok x w1 \<and> f x w1 = Err e w)"
  by (cases m) auto

lemma and_then_Panic_iff [run_iffs]:
  "and_then m f = Panic w \<longleftrightarrow> m = Panic w \<or> (\<exists>x w1. m = Ok x w1 \<and> f x w1 = Panic w)"
  by (cases m) auto

lemma and_then_Hang_iff [run_iffs]:
  "and_then m f = Hang \<longleftrightarrow> m = Hang \<or> (\<exists>x w1. m = Ok x w1 \<and> f x w1 = Hang)"
  by (cases m) auto

lemma map_err_Ok_iff [run_iffs]: "map_err g m = Ok x w \<longleftrightarrow> m = Ok x w"
  by (cases m) auto

lemma map_err_Err_iff [run_iffs]: "map_err g m = Err e w \<longleftrightarrow> (\<exists>e'. m = Err e' w \<and> e = g e')"
  by (cases m) auto

lemma map_err_Panic_iff [run_iffs]: "map_err g m = Panic w \<longleftrightarrow> m = Panic w"
  by (cases m) auto

lemma map_err_Hang_iff [run_iffs]: "map_err g m = Hang \<longleftrightarrow> m = Hang"
  by (cases m) auto

lemma and_then_assoc: "and_then (and_then m f) g = and_then m (\<lambda>x w. and_then (f x w) g)"
  by (cases m) auto

lemma unhang_simps [simp]: "unhang None = Hang" "unhang (Some r) = r"
  by (simp_all add: unhang_def)

lemma unhang_Some_iff: "unhang r = x \<and> x \<noteq> Hang \<longleftrightarrow> r = Some x \<and> x \<noteq> Hang"
  by (cases r) auto

lemma returns_iff: "returns r \<longleftrightarrow> r \<noteq> Hang"
  by (cases r) auto

lemma final_and_then:
  "final (and_then m f) = (case m of Ok x w \<Rightarrow> final (f x w) | _ \<Rightarrow> final m)"
  by (cases m) auto

lemma final_map_err [simp]: "final (map_err g m) = final m"
  by (cases m) auto

lemma map_run_iffs [run_iffs]:
  "map_run g h f m = Ok y v \<longleftrightarrow> (\<exists>x w. m = Ok x w \<and> y = h x \<and> v = f w)"
  "map_run g h f m = Err d v \<longleftrightarrow> (\<exists>e w. m = Err e w \<and> d = g e \<and> v = f w)"
  "map_run g h f m = Panic v \<longleftrightarrow> (\<exists>w. m = Panic w \<and> v = f w)"
  "map_run g h f m = Hang \<longleftrightarrow> m = Hang"
  by (cases m; auto)+

lemma lift_result_iffs [run_iffs]:
  "lift_result r w = Ok x w1 \<longleftrightarrow> r = Inr x \<and> w1 = w"
  "lift_result r w = Err e w1 \<longleftrightarrow> r = Inl e \<and> w1 = w"
  "lift_result r w \<noteq> Hang" "lift_result r w \<noteq> Panic w1"
  by (cases r; auto)+

lemma map_state_map_err: "map_state f (map_err g m) = map_err g (map_state f m)"
  by (cases m) auto

lemma map_state_lift_result: "map_state f (lift_result r w) = lift_result r (f w)"
  by (cases r) auto

text \<open>Simulation of a sequence: if the first parts correspond and the continuations correspond
  on every result of the first, the sequences correspond.\<close>

lemma map_state_and_then:
  assumes "map_state f m = m'"
    and "\<And>x w. m = Ok x w \<Longrightarrow> map_state f (g x w) = g' x (f w)"
  shows "map_state f (and_then m g) = and_then m' g'"
  using assms by (cases m) auto

section \<open>Lists and words\<close>

lemma set_takeWhile_all: "\<forall>x \<in> set xs. P x \<Longrightarrow> takeWhile P xs = xs"
  by (induction xs) auto

lemma concat_filter_nonempty: "concat (filter (\<lambda>x. x \<noteq> []) xs) = concat xs"
  by (induction xs) auto

lemma nat_div_mod_10: "(n::nat) = 10 * (n div 10) + n mod 10"
  by simp

end
