(* ===== verification/Rust_Text.thy ===== *)
theory Rust_Text imports Prelude begin

text \<open>
  The parts of Rust's string library the crate uses. A Rust \<^verbatim>\<open>String\<close> is its UTF-8 byte
  sequence, so \<^theory_text>\<open>rstring\<close> is a byte list and \<^verbatim>\<open>as_bytes\<close> is the identity.
  Modelled here: decimal and hexadecimal formatting, \<^verbatim>\<open>str::trim\<close>, \<^verbatim>\<open>str::parse::<u32>\<close>, UTF-8
  validation (\<^verbatim>\<open>str::from_utf8\<close>), \<^verbatim>\<open>String::from_utf8_lossy\<close> and the \<^verbatim>\<open>{:?}\<close> form of a
  \<^verbatim>\<open>Duration\<close>.
\<close>

type_synonym rstring = bytes

definition s2b :: "string \<Rightarrow> rstring" where
  "s2b s = map (\<lambda>c. of_nat (of_char c)) s"

lemma length_s2b [simp]: "length (s2b s) = length s"
  by (simp add: s2b_def)

section \<open>Decimal numbers\<close>

fun show_nat :: "nat \<Rightarrow> rstring" where
  "show_nat n = (if n < 10 then [of_nat (48 + n)] else show_nat (n div 10) @ [of_nat (48 + n mod 10)])"

declare show_nat.simps [simp del]

definition digit_val :: "u8 \<Rightarrow> nat option" where
  "digit_val b = (if 48 \<le> unat b \<and> unat b \<le> 57 then Some (unat b - 48) else None)"

text \<open>\<^verbatim>\<open>u32::from_str\<close>: an optional plus sign, then at least one digit, with checked
  multiplication and addition.\<close>

fun parse_digits :: "nat \<Rightarrow> rstring \<Rightarrow> nat option" where
  "parse_digits acc [] = Some acc"
| "parse_digits acc (b # bs) =
     (case digit_val b of
        None \<Rightarrow> None
      | Some d \<Rightarrow> if 10 * acc + d < 2 ^ 32 then parse_digits (10 * acc + d) bs else None)"

definition parse_u32 :: "rstring \<Rightarrow> u32 option" where
  "parse_u32 bs =
     (let ds = (case bs of b # rest \<Rightarrow> if b = 43 then rest else bs | [] \<Rightarrow> [])
      in if ds = [] then None else map_option of_nat (parse_digits 0 ds))"

lemma show_nat_nonempty [simp]: "show_nat n \<noteq> []"
  by (subst show_nat.simps) simp

lemma unat_ascii_digit: "d < 10 \<Longrightarrow> unat (48 + of_nat d :: u8) = 48 + d"
  using unat_of_nat [of "48 + d", where 'a = 8] by simp

lemma show_nat_digits: "b \<in> set (show_nat n) \<Longrightarrow> 48 \<le> unat b \<and> unat b \<le> 57"
proof (induction n rule: show_nat.induct)
  case (1 n)
  show ?case
  proof (cases "n < 10")
    case True
    with 1(2) have "b = 48 + of_nat n"
      by (subst (asm) show_nat.simps) simp
    with True unat_ascii_digit [of n] show ?thesis by simp
  next
    case False
    with 1(2) have "b \<in> set (show_nat (n div 10)) \<or> b = 48 + of_nat (n mod 10)"
      by (subst (asm) show_nat.simps) auto
    with 1(1) [OF False] unat_ascii_digit [of "n mod 10"] show ?thesis by auto
  qed
qed

lemma digit_val_ascii: "d < 10 \<Longrightarrow> digit_val (48 + of_nat d) = Some d"
  using unat_ascii_digit [of d] by (simp add: digit_val_def)

lemma parse_digits_append:
  "parse_digits acc (xs @ ys) =
     (case parse_digits acc xs of None \<Rightarrow> None | Some a \<Rightarrow> parse_digits a ys)"
  by (induction xs arbitrary: acc) (auto split: option.split)

lemma parse_show_nat: "n < 2 ^ 32 \<Longrightarrow> parse_digits 0 (show_nat n) = Some n"
proof (induction n rule: show_nat.induct)
  case (1 n)
  show ?case
  proof (cases "n < 10")
    case True
    with digit_val_ascii [of n] show ?thesis by (subst show_nat.simps) simp
  next
    case False
    with 1 have "parse_digits 0 (show_nat (n div 10)) = Some (n div 10)" by simp
    with False 1(2) digit_val_ascii [of "n mod 10"] show ?thesis
      by (subst show_nat.simps) (simp add: parse_digits_append)
  qed
qed

lemma parse_u32_digits:
  assumes "bs \<noteq> []" "\<forall>b \<in> set bs. 48 \<le> unat b"
  shows "parse_u32 bs = map_option of_nat (parse_digits 0 bs)"
proof -
  obtain b rest where bs: "bs = b # rest" using assms(1) by (cases bs) auto
  with assms(2) have "b \<noteq> 43" by auto
  with bs show ?thesis by (simp add: parse_u32_def)
qed

lemma parse_u32_show_nat: "parse_u32 (show_nat (unat (w :: u32))) = Some w"
proof -
  have "unat w < 2 ^ 32" using unsigned_less [of w] by simp
  then show ?thesis
    by (subst parse_u32_digits) (auto dest: show_nat_digits simp: parse_show_nat)
qed

section \<open>Whitespace\<close>

text \<open>The UTF-8 encodings of the characters with Unicode property White\_Space, which
  \<^verbatim>\<open>str::trim\<close> strips.\<close>

definition ws_chars :: "rstring list" where
  "ws_chars =
    [[9], [10], [11], [12], [13], [32], [0xC2, 0x85], [0xC2, 0xA0], [0xE1, 0x9A, 0x80],
     [0xE2, 0x80, 0x80], [0xE2, 0x80, 0x81], [0xE2, 0x80, 0x82], [0xE2, 0x80, 0x83],
     [0xE2, 0x80, 0x84], [0xE2, 0x80, 0x85], [0xE2, 0x80, 0x86], [0xE2, 0x80, 0x87],
     [0xE2, 0x80, 0x88], [0xE2, 0x80, 0x89], [0xE2, 0x80, 0x8A], [0xE2, 0x80, 0xA8],
     [0xE2, 0x80, 0xA9], [0xE2, 0x80, 0xAF], [0xE2, 0x81, 0x9F], [0xE3, 0x80, 0x80]]"

definition leading_ws :: "rstring \<Rightarrow> rstring option" where
  "leading_ws bs = find (\<lambda>w. take (length w) bs = w) ws_chars"

definition trailing_ws :: "rstring \<Rightarrow> rstring option" where
  "trailing_ws bs =
     find (\<lambda>w. length w \<le> length bs \<and> drop (length bs - length w) bs = w) ws_chars"

lemma ws_chars_nonempty: "w \<in> set ws_chars \<Longrightarrow> w \<noteq> []"
  by (auto simp: ws_chars_def)

lemma find_SomeD: "find P xs = Some x \<Longrightarrow> x \<in> set xs \<and> P x"
  by (induction xs) (auto split: if_splits)

lemma leading_ws_SomeD: "leading_ws bs = Some w \<Longrightarrow> w \<noteq> [] \<and> bs \<noteq> []"
  by (auto simp: leading_ws_def dest!: find_SomeD ws_chars_nonempty)

lemma trailing_ws_SomeD: "trailing_ws bs = Some w \<Longrightarrow> w \<noteq> [] \<and> bs \<noteq> []"
  by (auto simp: trailing_ws_def dest!: find_SomeD ws_chars_nonempty)

function trim_start :: "rstring \<Rightarrow> rstring" where
  "trim_start bs =
     (case leading_ws bs of None \<Rightarrow> bs | Some w \<Rightarrow> trim_start (drop (length w) bs))"
  by pat_completeness auto
termination
  by (relation "measure length") (auto dest: leading_ws_SomeD)

function trim_end :: "rstring \<Rightarrow> rstring" where
  "trim_end bs =
     (case trailing_ws bs of
        None \<Rightarrow> bs | Some w \<Rightarrow> trim_end (take (length bs - length w) bs))"
  by pat_completeness auto
termination
  by (relation "measure length") (auto dest: trailing_ws_SomeD)

declare trim_start.simps [simp del] trim_end.simps [simp del]

definition trim :: "rstring \<Rightarrow> rstring" where
  "trim bs = trim_end (trim_start bs)"

text \<open>Neither the first nor the last byte of a whitespace character is an ASCII digit.\<close>

lemma ws_chars_no_digit:
  "w \<in> set ws_chars \<Longrightarrow> \<not> (48 \<le> unat (hd w) \<and> unat (hd w) \<le> 57)"
  "w \<in> set ws_chars \<Longrightarrow> \<not> (48 \<le> unat (last w) \<and> unat (last w) \<le> 57)"
  by (auto simp: ws_chars_def)

lemma leading_ws_digit:
  assumes "bs \<noteq> []" "48 \<le> unat (hd bs)" "unat (hd bs) \<le> 57"
  shows "leading_ws bs = None"
proof -
  have "take (length w) bs \<noteq> w" if "w \<in> set ws_chars" for w
  proof
    assume "take (length w) bs = w"
    with that assms(1) have "hd w = hd bs"
      by (metis hd_take ws_chars_nonempty length_greater_0_conv)
    with ws_chars_no_digit(1) [OF that] assms show False by simp
  qed
  then show ?thesis by (auto simp: leading_ws_def find_None_iff)
qed

lemma trailing_ws_digit:
  assumes "bs \<noteq> []" "48 \<le> unat (last bs)" "unat (last bs) \<le> 57"
  shows "trailing_ws bs = None"
proof -
  have "drop (length bs - length w) bs \<noteq> w" if "w \<in> set ws_chars" "length w \<le> length bs" for w
  proof
    assume "drop (length bs - length w) bs = w"
    with that assms(1) have "last w = last bs"
      by (metis last_drop ws_chars_nonempty length_drop length_greater_0_conv zero_less_diff)
    with ws_chars_no_digit(2) [OF that(1)] assms show False by simp
  qed
  then show ?thesis by (auto simp: trailing_ws_def find_None_iff)
qed

lemma trim_digits_newline:
  assumes "bs \<noteq> []" "\<forall>b \<in> set bs. 48 \<le> unat b \<and> unat b \<le> 57"
  shows "trim (bs @ [10]) = bs"
proof -
  have "leading_ws (bs @ [10]) = None"
    using assms by (intro leading_ws_digit) auto
  then have start: "trim_start (bs @ [10]) = bs @ [10]"
    by (subst trim_start.simps) simp
  have nl: "trailing_ws (bs @ [10]) = Some [10]"
    by (simp add: trailing_ws_def ws_chars_def)
  have "trailing_ws bs = None"
    using assms by (intro trailing_ws_digit) auto
  then have "trim_end (bs @ [10]) = bs"
    by (subst trim_end.simps) (simp add: nl, subst trim_end.simps, simp)
  with start show ?thesis by (simp add: trim_def)
qed


section \<open>UTF-8\<close>

text \<open>
  One step of the decoder that \<^verbatim>\<open>str::from_utf8\<close> and \<^verbatim>\<open>String::from_utf8_lossy\<close> share: does
  the input start with a well-formed character, and how many bytes does it, or the
  maximal ill-formed prefix that is replaced as one unit, take.
\<close>

definition utf8_width :: "u8 \<Rightarrow> nat" where
  "utf8_width b =
     (let n = unat b in
      if n < 0x80 then 1
      else if 0xC2 \<le> n \<and> n \<le> 0xDF then 2
      else if 0xE0 \<le> n \<and> n \<le> 0xEF then 3
      else if 0xF0 \<le> n \<and> n \<le> 0xF4 then 4
      else 0)"

definition utf8_cont :: "u8 \<Rightarrow> bool" where
  "utf8_cont b \<longleftrightarrow> 0x80 \<le> unat b \<and> unat b \<le> 0xBF"

definition utf8_second :: "u8 \<Rightarrow> u8 \<Rightarrow> bool" where
  "utf8_second b0 b1 \<longleftrightarrow>
     (if b0 = 0xE0 then 0xA0 \<le> unat b1 \<and> unat b1 \<le> 0xBF
      else if b0 = 0xED then 0x80 \<le> unat b1 \<and> unat b1 \<le> 0x9F
      else if b0 = 0xF0 then 0x90 \<le> unat b1 \<and> unat b1 \<le> 0xBF
      else if b0 = 0xF4 then 0x80 \<le> unat b1 \<and> unat b1 \<le> 0x8F
      else utf8_cont b1)"

fun utf8_tail :: "(u8 \<Rightarrow> bool) list \<Rightarrow> nat \<Rightarrow> bytes \<Rightarrow> bool \<times> nat" where
  "utf8_tail [] n bs = (True, n)"
| "utf8_tail (p # ps) n [] = (False, n)"
| "utf8_tail (p # ps) n (b # bs) = (if p b then utf8_tail ps (Suc n) bs else (False, n))"

definition utf8_scan :: "bytes \<Rightarrow> bool \<times> nat" where
  "utf8_scan bs =
     (case bs of
        [] \<Rightarrow> (True, 0)
      | b0 # rest \<Rightarrow>
        if utf8_width b0 = 0 then (False, 1)
        else utf8_tail (take (utf8_width b0 - 1) [utf8_second b0, utf8_cont, utf8_cont]) 1 rest)"

lemma utf8_tail_ge: "n \<le> snd (utf8_tail ps n bs)"
  by (induction ps n bs rule: utf8_tail.induct) (auto intro: Suc_leD)

lemma utf8_tail_append:
  "utf8_tail ps n bs = (True, m) \<Longrightarrow> utf8_tail ps n (bs @ ys) = (True, m) \<and> m \<le> n + length bs"
  by (induction ps n bs rule: utf8_tail.induct) (auto split: if_splits)

lemma utf8_tail_take:
  "utf8_tail ps n bs = (True, m) \<Longrightarrow> utf8_tail ps n (take (m - n) bs) = (True, m)"
proof (induction ps n bs rule: utf8_tail.induct)
  case (3 p ps n b bs)
  then have "utf8_tail ps (Suc n) (take (m - Suc n) bs) = (True, m)" "p b"
    by (auto split: if_splits)
  moreover have le: "Suc n \<le> m"
    using 3(2) utf8_tail_ge [of "Suc n" ps bs] by (auto split: if_splits)
  moreover from le have "m - n = Suc (m - Suc n)" by arith
  ultimately show ?case by simp
qed auto

lemma utf8_scan_pos: "bs \<noteq> [] \<Longrightarrow> 0 < snd (utf8_scan bs)"
  using utf8_tail_ge [of 1] by (fastforce simp: utf8_scan_def Suc_le_eq split: list.splits)

lemma utf8_scan_append:
  "utf8_scan bs = (True, n) \<Longrightarrow> bs \<noteq> [] \<Longrightarrow> utf8_scan (bs @ ys) = (True, n) \<and> n \<le> length bs"
  by (cases bs) (auto simp: utf8_scan_def split: if_splits dest: utf8_tail_append)

lemma utf8_scan_take:
  assumes "utf8_scan bs = (True, n)" "bs \<noteq> []"
  shows "utf8_scan (take n bs) = (True, n)"
proof -
  have "0 < n" using utf8_scan_pos [OF assms(2)] assms(1) by simp
  with assms show ?thesis
    by (cases bs; cases n) (auto simp: utf8_scan_def split: if_splits dest: utf8_tail_take)
qed

function utf8_valid :: "bytes \<Rightarrow> bool" where
  "utf8_valid bs =
     (if bs = [] then True
      else fst (utf8_scan bs) \<and> utf8_valid (drop (snd (utf8_scan bs)) bs))"
  by pat_completeness auto
termination
  by (relation "measure length") (auto simp: utf8_scan_pos)

definition replacement_char :: rstring where
  "replacement_char = [0xEF, 0xBF, 0xBD]"

function utf8_lossy :: "bytes \<Rightarrow> rstring" where
  "utf8_lossy bs =
     (if bs = [] then []
      else (if fst (utf8_scan bs) then take (snd (utf8_scan bs)) bs else replacement_char)
           @ utf8_lossy (drop (snd (utf8_scan bs)) bs))"
  by pat_completeness auto
termination
  by (relation "measure length") (auto simp: utf8_scan_pos)

declare utf8_valid.simps [simp del] utf8_lossy.simps [simp del]

lemma utf8_empty [simp]: "utf8_valid []" "utf8_lossy [] = []"
  by (simp_all add: utf8_valid.simps utf8_lossy.simps)

lemma utf8_valid_append: "utf8_valid xs \<Longrightarrow> utf8_valid (xs @ ys) = utf8_valid ys"
proof (induction xs rule: utf8_valid.induct)
  case (1 xs)
  show ?case
  proof (cases "xs = []")
    case False
    obtain n where n: "utf8_scan xs = (True, n)" and rest: "utf8_valid (drop n xs)"
      using 1(2) False by (subst (asm) utf8_valid.simps) (auto simp: prod_eq_iff)
    have "utf8_scan (xs @ ys) = (True, n)" "n \<le> length xs"
      using utf8_scan_append [OF n False] by auto
    then have "utf8_valid (xs @ ys) = utf8_valid (drop n xs @ ys)"
      using False by (subst utf8_valid.simps) simp
    also have "\<dots> = utf8_valid ys"
      using 1(1) [OF False] n rest by simp
    finally show ?thesis .
  qed simp
qed

lemma utf8_lossy_valid_id: "utf8_valid bs \<Longrightarrow> utf8_lossy bs = bs"
proof (induction bs rule: utf8_valid.induct)
  case (1 bs)
  show ?case
  proof (cases "bs = []")
    case False
    then have "fst (utf8_scan bs)" "utf8_valid (drop (snd (utf8_scan bs)) bs)"
      using 1(2) by (subst (asm) utf8_valid.simps, simp)+
    with 1(1) False show ?thesis by (subst utf8_lossy.simps) simp
  qed simp
qed

lemma utf8_valid_take_scan:
  "bs \<noteq> [] \<Longrightarrow> fst (utf8_scan bs) \<Longrightarrow> utf8_valid (take (snd (utf8_scan bs)) bs)"
  using utf8_scan_take [of bs "snd (utf8_scan bs)"]
  by (subst utf8_valid.simps) (simp add: prod_eq_iff)

lemma utf8_valid_replacement: "utf8_valid replacement_char"
  by (simp add: replacement_char_def utf8_valid.simps utf8_scan_def utf8_width_def
      utf8_second_def utf8_cont_def)

lemma utf8_lossy_is_valid: "utf8_valid (utf8_lossy bs)"
proof (induction bs rule: utf8_lossy.induct)
  case (1 bs)
  show ?case
  proof (cases "bs = []")
    case False
    with 1 show ?thesis
      by (subst utf8_lossy.simps)
        (simp add: utf8_valid_append utf8_valid_take_scan utf8_valid_replacement)
  qed simp
qed

lemma utf8_valid_ascii: "\<forall>b \<in> set bs. unat b < 128 \<Longrightarrow> utf8_valid bs"
proof (induction bs)
  case (Cons b bs)
  then have "utf8_scan (b # bs) = (True, 1)"
    by (simp add: utf8_scan_def utf8_width_def)
  with Cons show ?case by (subst utf8_valid.simps) simp
qed simp

lemma show_nat_utf8 [simp]: "utf8_valid (show_nat n)"
  by (rule utf8_valid_ascii) (fastforce dest: show_nat_digits)

lemma utf8_valid_pid_line: "utf8_valid (show_nat n @ [10])"
  by (simp add: utf8_valid_append utf8_valid_ascii)

section \<open>Hexadecimal and Duration formatting\<close>

definition hex_digit :: "nat \<Rightarrow> u8" where
  "hex_digit d = (if d < 10 then of_nat (48 + d) else of_nat (87 + d))"

definition show_hex8 :: "u32 \<Rightarrow> rstring" where
  "show_hex8 w = map (\<lambda>i. hex_digit (unat w div 16 ^ i mod 16)) [7, 6, 5, 4, 3, 2, 1, 0]"

text \<open>
  A \<^verbatim>\<open>Duration\<close> is a number of nanoseconds. Its \<^verbatim>\<open>{:?}\<close> form picks the largest unit that
  gives a nonzero integral part and prints at most nine fractional digits, without trailing zeros.
\<close>

type_synonym duration = nat

definition from_secs :: "nat \<Rightarrow> duration" where "from_secs n = n * 1000000000"
definition from_millis :: "nat \<Rightarrow> duration" where "from_millis n = n * 1000000"

definition max_duration :: duration where
  "max_duration = (2 ^ 64 - 1) * 1000000000 + 999999999"

fun frac_digits :: "nat \<Rightarrow> nat \<Rightarrow> nat \<Rightarrow> rstring" where
  "frac_digits 0 unit frac = []"
| "frac_digits (Suc k) unit frac =
     (if frac = 0 then []
      else of_nat (48 + frac div unit) # frac_digits k (unit div 10) (frac mod unit))"

definition fmt_decimal :: "nat \<Rightarrow> nat \<Rightarrow> nat \<Rightarrow> rstring \<Rightarrow> rstring" where
  "fmt_decimal int_part frac unit suffix =
     show_nat int_part
     @ (if frac = 0 then [] else 46 # frac_digits 9 unit frac)
     @ suffix"

definition show_duration :: "duration \<Rightarrow> rstring" where
  "show_duration d =
     (let secs = d div 1000000000; nanos = d mod 1000000000 in
      if 0 < secs then fmt_decimal secs nanos 100000000 (s2b ''s'')
      else if 1000000 \<le> nanos
        then fmt_decimal (nanos div 1000000) (nanos mod 1000000) 100000 (s2b ''ms'')
      else if 1000 \<le> nanos
        then fmt_decimal (nanos div 1000) (nanos mod 1000) 100 [0xC2, 0xB5, 0x73]
      else fmt_decimal nanos 0 1 (s2b ''ns''))"

text \<open>\<^verbatim>\<open>Duration::saturating_mul(2)\<close>.\<close>

definition saturating_double :: "duration \<Rightarrow> duration" where
  "saturating_double d = (if 2 * d \<le> max_duration then 2 * d else max_duration)"

end
