(* ===== verification/Errors.thy ===== *)
theory Errors imports Rust_Text begin

text \<open>
  \<^verbatim>\<open>src/error.rs\<close>: the crate's error type, its messages, its source chain and the conversion
  from \<^verbatim>\<open>std::io::Error\<close>. An \<^verbatim>\<open>io::Error\<close> is its kind together with its message; a callback's
  \<^verbatim>\<open>BoxError\<close> is its message, which is all the crate ever reads of it.
\<close>

section \<open>Paths\<close>

text \<open>A \<^verbatim>\<open>PathBuf\<close> is its sequence of components below the root, each an arbitrary byte string.\<close>

type_synonym path = "rstring list"

definition display_path :: "path \<Rightarrow> rstring" where
  "display_path p = (if p = [] then [47] else utf8_lossy (concat (map (\<lambda>c. 47 # c) p)))"

definition parent :: "path \<Rightarrow> path option" where
  "parent p = (if p = [] then None else Some (butlast p))"

section \<open>Standard library I/O errors\<close>

datatype io_kind =
    NotFound | PermissionDenied | ConnectionRefused | ConnectionReset | ConnectionAborted
  | NotConnected | AddrInUse | BrokenPipe | AlreadyExists | WouldBlock | NotADirectory
  | IsADirectory | FilesystemLoop | InvalidInput | InvalidData | TimedOut | WriteZero
  | Interrupted | UnexpectedEof | OtherKind nat

record io_error =
  io_kind :: io_kind
  io_text :: rstring

definition io_err :: "io_kind \<Rightarrow> string \<Rightarrow> io_error" where
  "io_err k msg = \<lparr>io_kind = k, io_text = s2b msg\<rparr>"

lemma io_kind_io_err [simp]: "io_kind (io_err k msg) = k"
  by (simp add: io_err_def)

section \<open>The error type\<close>

type_synonym box_error = rstring

datatype error =
    Io io_error
  | MissingCallback rstring
  | InvalidFrameMagic u32
  | UnsupportedFrameVersion u8
  | UnknownFrameKind u8
  | UnexpectedFrameKind rstring rstring
  | PayloadTooLarge nat nat
  | DaemonAlreadyRunning "u32 option" "path option"
  | ReadyTimeout path duration
  | ShutdownTimeout path duration
  | DaemonReturnedError rstring
  | Startup box_error
  | Request box_error
  | Shutdown box_error

type_synonym ('a, 'w) result = "(error, 'a, 'w) run"

fun error_display :: "error \<Rightarrow> rstring" where
  "error_display (Io err) = io_text err"
| "error_display (MissingCallback name) = s2b ''missing required callback: '' @ name"
| "error_display (InvalidFrameMagic magic) = s2b ''invalid frame magic: 0x'' @ show_hex8 magic"
| "error_display (UnsupportedFrameVersion version) =
     s2b ''unsupported frame version: '' @ show_nat (unat version)"
| "error_display (UnknownFrameKind kind) = s2b ''unknown frame kind: '' @ show_nat (unat kind)"
| "error_display (UnexpectedFrameKind ex ac) =
     s2b ''unexpected frame kind: expected '' @ ex @ s2b '', got '' @ ac"
| "error_display (PayloadTooLarge l m) =
     s2b ''payload length '' @ show_nat l @ s2b '' exceeds maximum '' @ show_nat m"
| "error_display (DaemonAlreadyRunning pid socket) =
     (case (pid, socket) of
        (Some p, Some s) \<Rightarrow>
          s2b ''daemon already running with pid '' @ show_nat (unat p) @ s2b '' on socket ''
          @ display_path s
      | (Some p, None) \<Rightarrow> s2b ''daemon already running with pid '' @ show_nat (unat p)
      | (None, Some s) \<Rightarrow> s2b ''daemon already running on socket '' @ display_path s
      | (None, None) \<Rightarrow> s2b ''daemon already running'')"
| "error_display (ReadyTimeout s t) =
     s2b ''daemon did not become ready on '' @ display_path s @ s2b '' within '' @ show_duration t"
| "error_display (ShutdownTimeout s t) =
     s2b ''daemon did not shut down on '' @ display_path s @ s2b '' within '' @ show_duration t"
| "error_display (DaemonReturnedError message) = s2b ''daemon returned error: '' @ message"
| "error_display (Startup err) = s2b ''daemon startup failed: '' @ err"
| "error_display (Request err) = s2b ''request handler failed: '' @ err"
| "error_display (Shutdown err) = s2b ''daemon shutdown failed: '' @ err"

datatype error_cause = IoSource io_error | BoxSource box_error

fun error_source :: "error \<Rightarrow> error_cause option" where
  "error_source (Io err) = Some (IoSource err)"
| "error_source (Startup err) = Some (BoxSource err)"
| "error_source (Request err) = Some (BoxSource err)"
| "error_source (Shutdown err) = Some (BoxSource err)"
| "error_source _ = None"

definition error_from_io :: "io_error \<Rightarrow> error" where
  "error_from_io value = Io value"

lemma error_source_io_roundtrip [simp]: "error_source (error_from_io e) = Some (IoSource e)"
  by (simp add: error_from_io_def)

section \<open>Messages are well-formed UTF-8\<close>

text \<open>The strings an error carries are Rust strings, hence valid UTF-8.\<close>

fun error_strings :: "error \<Rightarrow> rstring list" where
  "error_strings (Io err) = [io_text err]"
| "error_strings (MissingCallback name) = [name]"
| "error_strings (UnexpectedFrameKind ex ac) = [ex, ac]"
| "error_strings (DaemonReturnedError message) = [message]"
| "error_strings (Startup err) = [err]"
| "error_strings (Request err) = [err]"
| "error_strings (Shutdown err) = [err]"
| "error_strings _ = []"

lemma ascii_of_nat: "n < 128 \<Longrightarrow> unat (of_nat n :: u8) < 128"
  using unat_of_nat [of n, where 'a = 8] by simp

lemma s2b_ascii_valid [simp]: "\<forall>c \<in> set s. (of_char c :: nat) < 128 \<Longrightarrow> utf8_valid (s2b s)"
  by (rule utf8_valid_ascii) (auto simp: s2b_def intro: ascii_of_nat)

lemma hex_digit_ascii: "d < 16 \<Longrightarrow> unat (hex_digit d) < 128"
  using ascii_of_nat [of "48 + d"] ascii_of_nat [of "87 + d"] by (simp add: hex_digit_def)

lemma show_hex8_valid [simp]: "utf8_valid (show_hex8 w)"
  by (rule utf8_valid_ascii) (auto simp: show_hex8_def intro!: hex_digit_ascii)

lemma frac_digits_ascii:
  "frac < 10 ^ Suc j \<Longrightarrow> b \<in> set (frac_digits k (10 ^ j) frac) \<Longrightarrow> unat b < 128"
proof (induction k arbitrary: j frac)
  case (Suc k)
  have digit: "frac div 10 ^ j < 10"
    using Suc.prems(1) by (simp add: less_mult_imp_div_less)
  show ?case
  proof (cases j)
    case 0
    with Suc.prems digit show ?thesis
      by (cases k) (auto split: if_splits intro: ascii_of_nat [of "48 + frac", simplified])
  next
    case (Suc i)
    have "frac mod 10 ^ j < 10 ^ Suc i" using Suc by simp
    moreover have "b = of_nat (48 + frac div 10 ^ j) \<or>
        b \<in> set (frac_digits k (10 ^ i) (frac mod 10 ^ j))"
      using Suc.prems(2) Suc by (auto split: if_splits)
    ultimately show ?thesis
      using digit ascii_of_nat [of "48 + frac div 10 ^ j"] Suc.IH by auto
  qed
qed simp

lemma fmt_decimal_valid:
  assumes "frac < 10 ^ Suc j" "utf8_valid suffix"
  shows "utf8_valid (fmt_decimal n frac (10 ^ j) suffix)"
proof -
  have "utf8_valid (46 # frac_digits 9 (10 ^ j) frac)"
    by (rule utf8_valid_ascii) (auto dest: frac_digits_ascii [OF assms(1)])
  from utf8_valid_append [OF this, of suffix] assms(2) show ?thesis
    by (simp add: fmt_decimal_def utf8_valid_append)
qed

lemma utf8_valid_micros: "utf8_valid [0xC2, 0xB5, 0x73]"
  by (simp add: utf8_valid.simps utf8_scan_def utf8_width_def utf8_second_def utf8_cont_def)

lemma show_duration_valid [simp]: "utf8_valid (show_duration d)"
proof -
  have "utf8_valid (fmt_decimal n (m mod 1000000000) 100000000 (s2b ''s''))" for n m
    using fmt_decimal_valid [of "m mod 1000000000" 8 "s2b ''s''" n] by simp
  moreover have "utf8_valid (fmt_decimal n (m mod 1000000) 100000 (s2b ''ms''))" for n m
    using fmt_decimal_valid [of "m mod 1000000" 5 "s2b ''ms''" n] by simp
  moreover have "utf8_valid (fmt_decimal n (m mod 1000) 100 [0xC2, 0xB5, 0x73])" for n m
    using fmt_decimal_valid [of "m mod 1000" 2 "[0xC2, 0xB5, 0x73]" n] utf8_valid_micros by simp
  moreover have "utf8_valid (fmt_decimal n 0 1 (s2b ''ns''))" for n
    using fmt_decimal_valid [of 0 0 "s2b ''ns''" n] by simp
  ultimately show ?thesis
    by (simp add: show_duration_def Let_def)
qed

lemma display_path_valid [simp]: "utf8_valid (display_path p)"
  by (auto simp: display_path_def utf8_lossy_is_valid intro: utf8_valid_ascii)

section \<open>Properties\<close>



end
