(* ===== verification/Frame.thy ===== *)
theory Frame imports Errors begin

unbundle bit_operations_syntax

text \<open>
  \<^verbatim>\<open>src/frame.rs\<close>: the frame kinds, the twelve-byte header and the framed reads and writes.

  A byte stream is what \<^verbatim>\<open>std::io::Read\<close> and \<^verbatim>\<open>std::io::Write\<close> may answer: the successive
  results of \<^verbatim>\<open>read\<close> (chunks of any size, an empty chunk for a read of zero bytes, errors), then
  end of file or silence; and the successive amounts \<^verbatim>\<open>write\<close> accepts. \<^verbatim>\<open>read_exact\<close> and
  \<^verbatim>\<open>write_all\<close> are the standard library's loops over them, so short reads, short writes,
  interrupted calls, errors and blocking are all inputs of the model.
\<close>

section \<open>Streams\<close>

datatype read_ev = Chunk bytes | ReadErr io_error

datatype write_ev = Accept nat | WriteErr io_error | WriteBlock

record stream =
  inbox :: "read_ev list"
  peer_closed :: bool
  room :: "write_ev list"
  outbox :: bytes
  flush_result :: "io_error option"

definition eof_error :: io_error where
  "eof_error = io_err UnexpectedEof ''failed to fill whole buffer''"

definition write_zero_error :: io_error where
  "write_zero_error = io_err WriteZero ''failed to write whole buffer''"

fun fill :: "nat \<Rightarrow> bytes \<Rightarrow> bool \<Rightarrow> read_ev list \<Rightarrow> (io_error, bytes, read_ev list) run" where
  "fill n acc closed [] =
     (if n = 0 then Ok acc [] else if closed then Err eof_error [] else Hang)"
| "fill n acc closed (Chunk c # evs) =
     (if n = 0 then Ok acc (Chunk c # evs)
      else if c = [] then Err eof_error evs
      else if length c \<le> n then fill (n - length c) (acc @ c) closed evs
      else Ok (acc @ take n c) (Chunk (drop n c) # evs))"
| "fill n acc closed (ReadErr e # evs) =
     (if n = 0 then Ok acc (ReadErr e # evs)
      else if io_kind e = Interrupted then fill n acc closed evs
      else Err e evs)"

definition read_exact :: "nat \<Rightarrow> stream \<Rightarrow> (io_error, bytes, stream) run" where
  "read_exact n s = map_state (\<lambda>evs. s\<lparr>inbox := evs\<rparr>) (fill n [] (peer_closed s) (inbox s))"

fun drain :: "bytes \<Rightarrow> bytes \<Rightarrow> write_ev list \<Rightarrow> (io_error, unit, write_ev list \<times> bytes) run" where
  "drain buf out [] = Ok () ([], out @ buf)"
| "drain buf out (Accept n # evs) =
     (if buf = [] then Ok () (Accept n # evs, out)
      else if n = 0 then Err write_zero_error (evs, out)
      else drain (drop n buf) (out @ take n buf) evs)"
| "drain buf out (WriteErr e # evs) =
     (if buf = [] then Ok () (WriteErr e # evs, out)
      else if io_kind e = Interrupted then drain buf out evs
      else Err e (evs, out))"
| "drain buf out (WriteBlock # evs) =
     (if buf = [] then Ok () (WriteBlock # evs, out) else Hang)"

definition write_all :: "bytes \<Rightarrow> stream \<Rightarrow> (io_error, unit, stream) run" where
  "write_all buf s =
     map_state (\<lambda>(evs, out). s\<lparr>room := evs, outbox := out\<rparr>) (drain buf (outbox s) (room s))"

definition flush :: "stream \<Rightarrow> (io_error, unit, stream) run" where
  "flush s = (case flush_result s of None \<Rightarrow> Ok () s | Some e \<Rightarrow> Err e s)"

section \<open>Constants and frame kinds\<close>

definition MAGIC :: u32 where "MAGIC = 0x534f434b"
definition VERSION :: u8 where "VERSION = 1"
definition HEADER_LEN :: nat where "HEADER_LEN = 12"
definition DEFAULT_MAX_PAYLOAD_LEN :: nat where "DEFAULT_MAX_PAYLOAD_LEN = 16 * 1024 * 1024"

datatype frame_kind = KRequest | KResponse | KPing | KPong | KError | KShutdown | KShutdownAck

fun kind_u8 :: "frame_kind \<Rightarrow> u8" where
  "kind_u8 KRequest = 1"
| "kind_u8 KResponse = 2"
| "kind_u8 KPing = 3"
| "kind_u8 KPong = 4"
| "kind_u8 KError = 5"
| "kind_u8 KShutdown = 6"
| "kind_u8 KShutdownAck = 7"

fun kind_label :: "frame_kind \<Rightarrow> rstring" where
  "kind_label KRequest = s2b ''request''"
| "kind_label KResponse = s2b ''response''"
| "kind_label KPing = s2b ''ping''"
| "kind_label KPong = s2b ''pong''"
| "kind_label KError = s2b ''error''"
| "kind_label KShutdown = s2b ''shutdown''"
| "kind_label KShutdownAck = s2b ''shutdown-ack''"

definition kind_try_from :: "u8 \<Rightarrow> error + frame_kind" where
  "kind_try_from value =
     (if value = 1 then Inr KRequest
      else if value = 2 then Inr KResponse
      else if value = 3 then Inr KPing
      else if value = 4 then Inr KPong
      else if value = 5 then Inr KError
      else if value = 6 then Inr KShutdown
      else if value = 7 then Inr KShutdownAck
      else Inl (UnknownFrameKind value))"

record frame =
  kind :: frame_kind
  flags :: u16
  payload :: bytes

record header =
  h_kind :: frame_kind
  h_flags :: u16
  h_payload_len :: u32

section \<open>Fixed-width codecs\<close>

text \<open>The contract of a fixed-width binary field: both round trips. Frames rely on nothing else of
  the integer fields and of the header.\<close>

locale fixed_codec =
  fixes enc :: "'a \<Rightarrow> bytes" and dec :: "bytes \<Rightarrow> 'e + 'a" and width :: nat
  assumes width_enc: "length (enc x) = width"
    and dec_enc: "dec (enc x) = Inr x"
    and enc_dec: "length bs = width \<Longrightarrow> dec bs = Inr x \<Longrightarrow> enc x = bs"
begin

lemma dec_Inr_iff: "length bs = width \<Longrightarrow> dec bs = Inr x \<longleftrightarrow> bs = enc x"
  by (metis dec_enc enc_dec)

lemma enc_append_eq_iff: "enc x @ xs = enc y @ ys \<longleftrightarrow> x = y \<and> xs = ys"
proof
  assume eq: "enc x @ xs = enc y @ ys"
  have "length (enc x) = length (enc y)" by (simp only: width_enc)
  with eq have "enc x = enc y" "xs = ys" by (metis append_eq_append_conv)+
  then have "Inr x = (Inr y :: 'e + 'a)" by (metis dec_enc)
  with \<open>xs = ys\<close> show "x = y \<and> xs = ys" by simp
qed auto

lemma dec_take: "dec (take width (enc x @ rest)) = Inr x"
  by (simp add: width_enc dec_enc)

lemma drop_enc: "drop width (enc x @ rest) = rest"
  by (simp add: width_enc)

end

section \<open>Big-endian fields\<close>

definition u32_to_be :: "u32 \<Rightarrow> bytes" where
  "u32_to_be w = [ucast (drop_bit 24 w), ucast (drop_bit 16 w), ucast (drop_bit 8 w), ucast w]"

fun u32_from_be :: "bytes \<Rightarrow> u32" where
  "u32_from_be [a, b, c, d] =
     push_bit 24 (ucast a) OR push_bit 16 (ucast b) OR push_bit 8 (ucast c) OR ucast d"
| "u32_from_be _ = 0"

definition u16_to_be :: "u16 \<Rightarrow> bytes" where
  "u16_to_be w = [ucast (drop_bit 8 w), ucast w]"

fun u16_from_be :: "bytes \<Rightarrow> u16" where
  "u16_from_be [a, b] = push_bit 8 (ucast a) OR ucast b"
| "u16_from_be _ = 0"

lemma length_to_be [simp]: "length (u32_to_be w) = 4" "length (u16_to_be v) = 2"
  by (simp_all add: u32_to_be_def u16_to_be_def)

lemma length_4_iff: "length xs = 4 \<longleftrightarrow> (\<exists>a b c d. xs = [a, b, c, d])"
  by (auto simp: numeral_eq_Suc length_Suc_conv)

lemma length_2_iff: "length xs = 2 \<longleftrightarrow> (\<exists>a b. xs = [a, b])"
  by (auto simp: numeral_eq_Suc length_Suc_conv)

lemma u32_from_to_be [simp]: "u32_from_be (u32_to_be w) = w"
proof (rule bit_word_eqI)
  fix n :: nat assume "n < LENGTH(32)"
  then consider "n < 8" | "8 \<le> n" "n < 16" | "16 \<le> n" "n < 24" | "24 \<le> n" "n < 32"
    by fastforce
  then show "bit (u32_from_be (u32_to_be w)) n = bit w n"
    by cases (auto simp: u32_to_be_def bit_simps)
qed

lemma u16_from_to_be [simp]: "u16_from_be (u16_to_be w) = w"
proof (rule bit_word_eqI)
  fix n :: nat assume "n < LENGTH(16)"
  then consider "n < 8" | "8 \<le> n" "n < 16" by fastforce
  then show "bit (u16_from_be (u16_to_be w)) n = bit w n"
    by cases (auto simp: u16_to_be_def bit_simps)
qed

lemma u8_bit_beyond: "8 \<le> n \<Longrightarrow> \<not> bit (b :: u8) n"
  by (auto dest: bit_imp_le_length)

lemma u32_to_from_be: "length bs = 4 \<Longrightarrow> u32_to_be (u32_from_be bs) = bs"
  by (auto simp: length_4_iff u32_to_be_def bit_simps u8_bit_beyond intro!: bit_word_eqI)

lemma u16_to_from_be: "length bs = 2 \<Longrightarrow> u16_to_be (u16_from_be bs) = bs"
  by (auto simp: length_2_iff u16_to_be_def bit_simps u8_bit_beyond intro!: bit_word_eqI)

interpretation be32: fixed_codec u32_to_be "\<lambda>bs. Inr (u32_from_be bs) :: error + u32" 4
  by unfold_locales (auto simp: u32_to_from_be)

interpretation be16: fixed_codec u16_to_be "\<lambda>bs. Inr (u16_from_be bs) :: error + u16" 2
  by unfold_locales (auto simp: u16_to_from_be)

section \<open>Header\<close>

definition header_encode :: "header \<Rightarrow> bytes" where
  "header_encode h =
     u32_to_be MAGIC @ [VERSION] @ [kind_u8 (h_kind h)] @ u16_to_be (h_flags h)
     @ u32_to_be (h_payload_len h)"

definition header_decode :: "bytes \<Rightarrow> error + header" where
  "header_decode buf =
     (let magic = u32_from_be (take 4 buf) in
      if magic \<noteq> MAGIC then Inl (InvalidFrameMagic magic)
      else let version = buf ! 4 in
      if version \<noteq> VERSION then Inl (UnsupportedFrameVersion version)
      else case kind_try_from (buf ! 5) of
        Inl err \<Rightarrow> Inl err
      | Inr k \<Rightarrow> Inr \<lparr>h_kind = k,
                    h_flags = u16_from_be (take 2 (drop 6 buf)),
                    h_payload_len = u32_from_be (take 4 (drop 8 buf))\<rparr>)"

lemma length_header_encode [simp]: "length (header_encode h) = HEADER_LEN"
  by (simp add: header_encode_def HEADER_LEN_def)

lemma kind_try_from_u8 [simp]: "kind_try_from (kind_u8 k) = Inr k"
  by (cases k) (simp_all add: kind_try_from_def)

lemma kind_try_from_Inr_iff: "kind_try_from b = Inr k \<longleftrightarrow> b = kind_u8 k"
  by (cases k) (auto simp: kind_try_from_def split: if_splits)

lemma kind_try_from_Inl_iff:
  "kind_try_from b = Inl e \<longleftrightarrow> (b = 0 \<or> 7 < unat b) \<and> e = UnknownFrameKind b"
proof (cases "b \<in> {1, 2, 3, 4, 5, 6, 7}")
  case False
  have "b = 0 \<or> 7 < unat b"
  proof (rule ccontr)
    assume "\<not> ?thesis"
    then have "unat b \<noteq> 0" "unat b \<le> 7" by (auto simp: unat_eq_zero)
    then have "unat b = 1 \<or> unat b = 2 \<or> unat b = 3 \<or> unat b = 4 \<or> unat b = 5 \<or> unat b = 6
        \<or> unat b = 7"
      by arith
    moreover have "b = of_nat (unat b)" by simp
    ultimately have "b \<in> {1, 2, 3, 4, 5, 6, 7}" by (metis insertI1 insertI2 of_nat_1 of_nat_numeral)
    with False show False by contradiction
  qed
  with False show ?thesis by (auto simp: kind_try_from_def)
qed (auto simp: kind_try_from_def)

lemma header_fields:
  "take 4 (header_encode h) = u32_to_be MAGIC"
  "header_encode h ! 4 = VERSION"
  "header_encode h ! 5 = kind_u8 (h_kind h)"
  "take 2 (drop 6 (header_encode h)) = u16_to_be (h_flags h)"
  "take 4 (drop 8 (header_encode h)) = u32_to_be (h_payload_len h)"
  by (simp_all add: header_encode_def nth_append)

lemma header_decode_encode [simp]: "header_decode (header_encode h) = Inr h"
  by (simp add: header_decode_def header_fields)

lemma split_header:
  assumes "length buf = 12"
  shows "buf = take 4 buf @ [buf ! 4] @ [buf ! 5] @ take 2 (drop 6 buf) @ take 4 (drop 8 buf)"
proof -
  obtain a b c d e f g h i j k l where "buf = [a, b, c, d, e, f, g, h, i, j, k, l]"
    using assms by (auto simp: numeral_eq_Suc length_Suc_conv)
  then show ?thesis by simp
qed

lemma header_encode_decode:
  assumes "length buf = HEADER_LEN" "header_decode buf = Inr h"
  shows "header_encode h = buf"
proof -
  have len: "length buf = 12" using assms(1) by (simp add: HEADER_LEN_def)
  have m: "u32_from_be (take 4 buf) = MAGIC" and v: "buf ! 4 = VERSION"
    and k: "buf ! 5 = kind_u8 (h_kind h)"
    and fl: "h_flags h = u16_from_be (take 2 (drop 6 buf))"
    and pl: "h_payload_len h = u32_from_be (take 4 (drop 8 buf))"
    using assms(2)
    by (auto simp: header_decode_def Let_def kind_try_from_Inr_iff split: if_splits sum.splits)
  have "u32_to_be MAGIC = take 4 buf"
    using be32.enc_dec [of "take 4 buf" MAGIC] m len by simp
  moreover have "u16_to_be (h_flags h) = take 2 (drop 6 buf)"
    using be16.enc_dec [of "take 2 (drop 6 buf)" "h_flags h"] fl len by simp
  moreover have "u32_to_be (h_payload_len h) = take 4 (drop 8 buf)"
    using be32.enc_dec [of "take 4 (drop 8 buf)" "h_payload_len h"] pl len by simp
  ultimately show ?thesis
    using split_header [OF len] v k by (simp add: header_encode_def)
qed

interpretation hdr: fixed_codec header_encode header_decode HEADER_LEN
  by unfold_locales (auto simp: header_encode_decode)

section \<open>Reading and writing frames\<close>

definition read_frame :: "nat \<Rightarrow> stream \<Rightarrow> (frame, stream) result" where
  "read_frame max_payload_len reader =
     and_then (map_err Io (read_exact HEADER_LEN reader)) (\<lambda>header_buf reader.
     and_then (lift_result (header_decode header_buf) reader) (\<lambda>header reader.
       let payload_len = unat (h_payload_len header) in
       if payload_len > max_payload_len
       then Err (PayloadTooLarge payload_len max_payload_len) reader
       else and_then (map_err Io (read_exact payload_len reader)) (\<lambda>payload reader.
         Ok \<lparr>kind = h_kind header, flags = h_flags header, payload = payload\<rparr> reader)))"

definition write_frame_with_flags ::
  "frame_kind \<Rightarrow> u16 \<Rightarrow> bytes \<Rightarrow> stream \<Rightarrow> (unit, stream) result" where
  "write_frame_with_flags k fl pl writer =
     (if length pl > 2 ^ 32 - 1 then Err (PayloadTooLarge (length pl) (2 ^ 32 - 1)) writer
      else
        let header = \<lparr>h_kind = k, h_flags = fl, h_payload_len = of_nat (length pl)\<rparr> in
        and_then (map_err Io (write_all (header_encode header) writer)) (\<lambda>_ writer.
        and_then (map_err Io (write_all pl writer)) (\<lambda>_ writer.
        map_err Io (flush writer))))"

definition write_frame :: "frame_kind \<Rightarrow> bytes \<Rightarrow> stream \<Rightarrow> (unit, stream) result" where
  "write_frame k pl writer = write_frame_with_flags k 0 pl writer"

section \<open>Framing does not depend on how the bytes arrive\<close>

fun flat :: "read_ev list \<Rightarrow> bytes" where
  "flat [] = []"
| "flat (Chunk c # evs) = c @ flat evs"
| "flat (ReadErr e # evs) = flat evs"

text \<open>A clean delivery: nonempty chunks, and no error but an interrupted call, which the standard
  library retries.\<close>

fun clean :: "read_ev list \<Rightarrow> bool" where
  "clean [] = True"
| "clean (Chunk c # evs) = (c \<noteq> [] \<and> clean evs)"
| "clean (ReadErr e # evs) = (io_kind e = Interrupted \<and> clean evs)"

definition short :: "bool \<Rightarrow> (error, 'a, bytes) run" where
  "short closed = (if closed then Err (Io eof_error) [] else Hang)"

text \<open>The reference parser on the byte string itself.\<close>

definition parse_frame :: "nat \<Rightarrow> bool \<Rightarrow> bytes \<Rightarrow> (frame, bytes) result" where
  "parse_frame max_len closed bs =
     (if length bs < 12 then short closed
      else case header_decode (take 12 bs) of
        Inl e \<Rightarrow> Err e (drop 12 bs)
      | Inr h \<Rightarrow>
        let n = unat (h_payload_len h); rest = drop 12 bs in
        if max_len < n then Err (PayloadTooLarge n max_len) rest
        else if length rest < n then short closed
        else Ok \<lparr>kind = h_kind h, flags = h_flags h, payload = take n rest\<rparr> (drop n rest))"

abbreviation unread :: "stream \<Rightarrow> bytes" where
  "unread s \<equiv> flat (inbox s)"

lemma fill_flat:
  "clean evs \<Longrightarrow>
   map_state flat (fill n acc closed evs) =
     (if n \<le> length (flat evs) then Ok (acc @ take n (flat evs)) (drop n (flat evs))
      else if closed then Err eof_error [] else Hang)"
  by (induction n acc closed evs rule: fill.induct) (auto simp: not_le)

lemma fill_clean: "clean evs \<Longrightarrow> fill n acc closed evs = Ok b evs' \<Longrightarrow> clean evs'"
  by (induction n acc closed evs rule: fill.induct) (auto split: if_splits)

lemma read_exact_flat:
  "clean (inbox s) \<Longrightarrow>
   map_state unread (map_err Io (read_exact n s)) =
     (if n \<le> length (unread s) then Ok (take n (unread s)) (drop n (unread s))
      else short (peer_closed s))"
  using fill_flat [of "inbox s" n "[]" "peer_closed s"]
  by (cases "fill n [] (peer_closed s) (inbox s)")
    (auto simp: read_exact_def short_def split: if_splits)

lemma read_exact_OkD:
  "read_exact n s = Ok b s' \<Longrightarrow>
   (clean (inbox s) \<longrightarrow> clean (inbox s')) \<and> peer_closed s' = peer_closed s \<and>
   room s' = room s \<and> outbox s' = outbox s \<and> flush_result s' = flush_result s"
  by (cases "fill n [] (peer_closed s) (inbox s)") (auto simp: read_exact_def dest: fill_clean)

lemma read_frame_parse:
  assumes "clean (inbox s)"
  shows "map_state unread (read_frame m s) = parse_frame m (peer_closed s) (unread s)"
proof (cases "12 \<le> length (unread s)")
  case False
  with read_exact_flat [OF assms, of 12] show ?thesis
    by (cases "read_exact 12 s")
      (auto simp: read_frame_def parse_frame_def HEADER_LEN_def short_def split: if_splits)
next
  case True
  then obtain s1 where s1: "read_exact 12 s = Ok (take 12 (unread s)) s1"
    "unread s1 = drop 12 (unread s)"
    using read_exact_flat [OF assms, of 12] by (cases "read_exact 12 s") auto
  from read_exact_OkD [OF s1(1)] assms
  have cl: "clean (inbox s1)" "peer_closed s1 = peer_closed s" by auto
  show ?thesis
  proof (cases "header_decode (take 12 (unread s))")
    case (Inl e)
    with True s1 show ?thesis
      by (simp add: read_frame_def parse_frame_def HEADER_LEN_def)
  next
    case (Inr h)
    with True s1 cl read_exact_flat [OF cl(1), of "unat (h_payload_len h)"] show ?thesis
      by (cases "read_exact (unat (h_payload_len h)) s1")
        (auto simp: read_frame_def parse_frame_def HEADER_LEN_def Let_def short_def
          split: if_splits)
  qed
qed

section \<open>What a write leaves on the wire\<close>

definition frame_bytes :: "frame_kind \<Rightarrow> u16 \<Rightarrow> bytes \<Rightarrow> bytes" where
  "frame_bytes k fl pl =
     header_encode \<lparr>h_kind = k, h_flags = fl, h_payload_len = of_nat (length pl)\<rparr> @ pl"

lemma length_frame_bytes [simp]: "length (frame_bytes k fl pl) = 12 + length pl"
  by (simp add: frame_bytes_def HEADER_LEN_def)

lemma header_encode_nonempty [simp]: "header_encode h \<noteq> []"
  by (simp add: header_encode_def u32_to_be_def)

lemma frame_bytes_nonempty [simp]: "frame_bytes k fl pl \<noteq> []"
  by (simp add: frame_bytes_def)

lemma drain_out:
  "final (drain buf out evs) = Some (evs', out') \<Longrightarrow>
   \<exists>j. out' = out @ take j buf \<and> (drain buf out evs = Ok () (evs', out') \<longrightarrow> length buf \<le> j)"
proof (induction buf out evs rule: drain.induct)
  case (1 buf out)
  then show ?case by (auto intro: exI [of _ "length buf"])
next
  case (2 buf out n evs)
  show ?case
  proof (cases "buf = [] \<or> n = 0")
    case True
    with 2(2) show ?thesis by (auto intro: exI [of _ 0])
  next
    case False
    then obtain j where j: "out' = (out @ take n buf) @ take j (drop n buf)"
      "drain (drop n buf) (out @ take n buf) evs = Ok () (evs', out') \<longrightarrow> length (drop n buf) \<le> j"
      using 2 by auto
    have "out' = out @ take (n + j) buf" using j(1) by (simp add: take_add)
    with j(2) False show ?thesis by (intro exI [of _ "n + j"]) auto
  qed
qed (auto split: if_splits intro: exI [of _ 0])

lemma write_all_out:
  assumes "final (write_all buf s) = Some s'"
  shows "\<exists>j. outbox s' = outbox s @ take j buf \<and>
             (write_all buf s = Ok () s' \<longrightarrow> length buf \<le> j)"
proof -
  obtain evs' where d: "final (drain buf (outbox s) (room s)) = Some (evs', outbox s')"
    and ok: "write_all buf s = Ok () s' \<longrightarrow> drain buf (outbox s) (room s) = Ok () (evs', outbox s')"
    using assms by (cases "drain buf (outbox s) (room s)") (auto simp: write_all_def)
  from drain_out [OF d] ok show ?thesis by auto
qed

lemma write_all_OkD: "write_all buf s = Ok u s' \<Longrightarrow> outbox s' = outbox s @ buf"
  using write_all_out [of buf s s'] by auto

lemma write_all_frame:
  "final (write_all buf s) = Some s' \<Longrightarrow>
   inbox s' = inbox s \<and> peer_closed s' = peer_closed s \<and> flush_result s' = flush_result s"
  by (cases "drain buf (outbox s) (room s)") (auto simp: write_all_def split: prod.splits)

lemma drain_empty: "drain [] out evs = Ok () (evs, out)"
proof (cases evs)
  case (Cons e es)
  then show ?thesis by (cases e) simp_all
qed simp

lemma write_all_empty [simp]: "write_all [] s = Ok () s"
  by (simp add: write_all_def drain_empty)

lemma write_all_ready [simp]: "room s = [] \<Longrightarrow> write_all buf s = Ok () (s\<lparr>outbox := outbox s @ buf\<rparr>)"
  by (simp add: write_all_def)

lemma drain_not_panic: "drain buf out evs \<noteq> Panic w"
  by (induction buf out evs rule: drain.induct) auto

lemma write_all_not_panic [simp]: "write_all buf s \<noteq> Panic s'"
  using drain_not_panic [of buf "outbox s" "room s"]
  by (cases "drain buf (outbox s) (room s)") (auto simp: write_all_def)

lemma write_frame_with_flags_out:
  assumes "final (write_frame_with_flags k fl pl s) = Some s'"
  shows "\<exists>j. outbox s' = outbox s @ take j (frame_bytes k fl pl) \<and>
             (write_frame_with_flags k fl pl s = Ok () s' \<longrightarrow> length (frame_bytes k fl pl) \<le> j)"
proof (cases "length pl > 2 ^ 32 - 1")
  case True
  with assms show ?thesis
    by (intro exI [of _ 0]) (auto simp: write_frame_with_flags_def)
next
  case False
  define he where "he = header_encode \<lparr>h_kind = k, h_flags = fl, h_payload_len = of_nat (length pl)\<rparr>"
  have fb: "frame_bytes k fl pl = he @ pl" by (simp add: frame_bytes_def he_def)
  note unf = write_frame_with_flags_def he_def [symmetric]
  show ?thesis
  proof (cases "write_all he s")
    case (Ok u s1)
    note first = write_all_OkD [OF Ok]
    show ?thesis
    proof (cases "write_all pl s1")
      case (Ok v s2)
      with write_all_OkD [OF Ok] first \<open>write_all he s = Ok u s1\<close> assms False show ?thesis
        by (intro exI [of _ "length (he @ pl)"])
          (auto simp: unf fb flush_def Let_def split: option.splits)
    next
      case (Err e s2)
      then obtain j where "outbox s2 = outbox s1 @ take j pl" using write_all_out [of pl s1 s2] by auto
      with Err first \<open>write_all he s = Ok u s1\<close> assms False show ?thesis
        by (intro exI [of _ "length he + j"]) (auto simp: unf fb Let_def)
    qed (use Ok assms False in \<open>simp_all add: unf Let_def\<close>)
  next
    case (Err e s1)
    then obtain j where "outbox s1 = outbox s @ take j he" using write_all_out [of he s s1] by auto
    with Err assms False show ?thesis
      by (intro exI [of _ "min j (length he)"]) (auto simp: unf fb Let_def min_def)
  qed (use assms False in \<open>simp_all add: unf Let_def\<close>)
qed

lemma write_frame_OkD:
  assumes "write_frame k pl s = Ok u s'"
  shows "outbox s' = outbox s @ frame_bytes k 0 pl" "length pl < 2 ^ 32"
proof -
  show "outbox s' = outbox s @ frame_bytes k 0 pl"
    using write_frame_with_flags_out [of k 0 pl s s'] assms by (auto simp: write_frame_def)
  show "length pl < 2 ^ 32"
    using assms by (auto simp: write_frame_def write_frame_with_flags_def split: if_splits)
qed

lemma write_frame_ready:
  "room s = [] \<Longrightarrow> flush_result s = None \<Longrightarrow> length pl < 2 ^ 32 \<Longrightarrow>
   write_frame k pl s = Ok () (s\<lparr>outbox := outbox s @ frame_bytes k 0 pl\<rparr>)"
  by (simp add: write_frame_def write_frame_with_flags_def frame_bytes_def flush_def)

lemma write_frame_not_panic [simp]: "write_frame k pl s \<noteq> Panic s'"
  by (auto simp: write_frame_def write_frame_with_flags_def flush_def Let_def run_iffs
      split: option.splits if_splits)

lemma parse_frame_bytes:
  assumes "length pl \<le> m" "length pl < 2 ^ 32"
  shows "parse_frame m closed (frame_bytes k fl pl @ rest)
         = Ok \<lparr>kind = k, flags = fl, payload = pl\<rparr> rest"
proof -
  define h where "h = \<lparr>h_kind = k, h_flags = fl, h_payload_len = of_nat (length pl) :: u32\<rparr>"
  have len: "unat (h_payload_len h) = length pl"
    using assms(2) by (simp add: h_def unat_of_nat)
  have eq: "frame_bytes k fl pl @ rest = header_encode h @ (pl @ rest)"
    by (simp add: frame_bytes_def h_def)
  have hd: "header_decode (take 12 (header_encode h @ (pl @ rest))) = Inr h"
    and dr: "drop 12 (header_encode h @ (pl @ rest)) = pl @ rest"
    using hdr.dec_take [of h "pl @ rest"] hdr.drop_enc [of h "pl @ rest"]
    by (simp_all only: HEADER_LEN_def)
  have "parse_frame m closed (header_encode h @ (pl @ rest))
      = Ok \<lparr>kind = h_kind h, flags = h_flags h, payload = pl\<rparr> rest"
    using assms(1) len by (simp add: parse_frame_def hd dr Let_def HEADER_LEN_def)
  then show ?thesis by (simp only: eq) (simp add: h_def)
qed

lemma map_state_OkD: "map_state f m = Ok x w' \<Longrightarrow> \<exists>w. m = Ok x w \<and> f w = w'"
  by (cases m) auto

lemma read_frame_bytes:
  assumes "clean (inbox s)" "unread s = frame_bytes k fl pl @ rest" "length pl \<le> m" "length pl < 2 ^ 32"
  shows "\<exists>s'. read_frame m s = Ok \<lparr>kind = k, flags = fl, payload = pl\<rparr> s' \<and> unread s' = rest"
  using read_frame_parse [OF assms(1), of m] parse_frame_bytes [OF assms(3,4)] assms(2)
  by (auto dest: map_state_OkD)

section \<open>Reads on any stream\<close>

lemma fill_length: "fill n acc closed evs = Ok b evs' \<Longrightarrow> length b = length acc + n"
  by (induction n acc closed evs rule: fill.induct) (auto split: if_splits)

lemma fill_closed_returns: "fill n acc True evs \<noteq> Hang"
  by (induction n acc True evs rule: fill.induct) (auto simp: split: if_splits)

lemma fill_not_panic: "fill n acc closed evs \<noteq> Panic w"
  by (induction n acc closed evs rule: fill.induct) auto

lemma read_exact_length: "read_exact n s = Ok b s' \<Longrightarrow> length b = n"
  by (cases "fill n [] (peer_closed s) (inbox s)") (auto simp: read_exact_def dest: fill_length)

lemma read_exact_not_panic [simp]: "read_exact n s \<noteq> Panic s'"
  using fill_not_panic [of n "[]" "peer_closed s" "inbox s"]
  by (cases "fill n [] (peer_closed s) (inbox s)") (auto simp: read_exact_def)

lemma read_exact_closed: "peer_closed s \<Longrightarrow> read_exact n s \<noteq> Hang"
  using fill_closed_returns [of n "[]" "inbox s"]
  by (cases "fill n [] True (inbox s)") (auto simp: read_exact_def)

lemma read_frame_not_panic [simp]: "read_frame m s \<noteq> Panic s'"
  by (auto simp: read_frame_def Let_def run_iffs split: if_splits)

lemma read_frame_closed: "peer_closed s \<Longrightarrow> read_frame m s \<noteq> Hang"
  by (auto simp: read_frame_def Let_def run_iffs read_exact_closed dest: read_exact_OkD
      split: if_splits)

lemma read_exact_final:
  "final (read_exact n s) = Some s' \<Longrightarrow>
   room s' = room s \<and> outbox s' = outbox s \<and> flush_result s' = flush_result s \<and>
   peer_closed s' = peer_closed s"
  by (cases "fill n [] (peer_closed s) (inbox s)") (auto simp: read_exact_def)

text \<open>Reading never touches the writing side.\<close>

lemma read_frame_final:
  assumes "final (read_frame m s) = Some s'"
  shows "room s' = room s \<and> outbox s' = outbox s \<and> flush_result s' = flush_result s"
proof (cases "read_exact HEADER_LEN s")
  case (Ok hb s1)
  with read_exact_final [of HEADER_LEN s s1] have
    s1: "room s1 = room s" "outbox s1 = outbox s" "flush_result s1 = flush_result s" by auto
  show ?thesis
  proof (cases "header_decode hb")
    case (Inr h)
    with assms Ok s1 read_exact_final [of "unat (h_payload_len h)" s1] show ?thesis
      by (cases "read_exact (unat (h_payload_len h)) s1")
        (auto simp: read_frame_def Let_def split: if_splits)
  qed (use assms Ok s1 in \<open>auto simp: read_frame_def\<close>)
qed (use assms read_exact_final [of HEADER_LEN s s'] in \<open>auto simp: read_frame_def\<close>)

lemma read_frame_bound:
  "read_frame m s = Ok f s' \<Longrightarrow> length (payload f) \<le> m \<and> length (payload f) < 2 ^ 32"
  using unsigned_less [where 'a = nat and 'b = 32]
  by (auto simp: read_frame_def Let_def run_iffs split: if_splits dest!: read_exact_length)

section \<open>Properties\<close>

text \<open>The header codec is a bijection between headers and the 12-byte strings the decoder
  accepts: a buffer decodes to a header exactly when it is that header's encoding.\<close>

theorem header_codec:
  assumes "length buf = HEADER_LEN"
  shows "header_decode buf = Inr h \<longleftrightarrow> buf = header_encode h"
  using assms by (rule hdr.dec_Inr_iff)

theorem header_codec_witness:
  "header_decode [0x53, 0x4f, 0x43, 0x4b, 1, 3, 0, 0, 0, 0, 0, 0]
     = Inr \<lparr>h_kind = KPing, h_flags = 0, h_payload_len = 0\<rparr>"
proof -
  let ?h = "\<lparr>h_kind = KPing, h_flags = 0, h_payload_len = 0\<rparr>"
  have "[0x53, 0x4f, 0x43, 0x4b, 1, 3, 0, 0, 0, 0, 0, 0] = header_encode ?h"
    by (simp add: header_encode_def u32_to_be_def u16_to_be_def MAGIC_def VERSION_def)
  with header_codec [of "[0x53, 0x4f, 0x43, 0x4b, 1, 3, 0, 0, 0, 0, 0, 0]" ?h] show ?thesis
    by (simp add: HEADER_LEN_def)
qed

text \<open>A damaged header is never taken for a frame: changing any byte of the magic number or the
  version, or replacing the kind by a number that is no kind, makes the decoder report precisely
  that field.\<close>

theorem header_corruption_detected:
  assumes "i \<le> 5" "b \<noteq> header_encode h ! i" "i = 5 \<Longrightarrow> b = 0 \<or> 7 < unat b"
  shows "header_decode ((header_encode h)[i := b]) =
     Inl (if i < 4 then InvalidFrameMagic (u32_from_be ((take 4 (header_encode h))[i := b]))
          else if i = 4 then UnsupportedFrameVersion b
          else UnknownFrameKind b)"
proof (cases "i < 4")
  case True
  let ?m = "(u32_to_be MAGIC)[i := b]"
  have "?m \<noteq> u32_to_be MAGIC"
    using True assms(2)
    by (metis header_fields(1) length_to_be(1) nth_list_update_eq nth_take)
  then have "u32_from_be ?m \<noteq> MAGIC"
    using u32_to_from_be [of ?m] by auto
  moreover have "take 4 ((header_encode h)[i := b]) = ?m"
    by (simp add: take_update_swap header_fields)
  ultimately show ?thesis
    using True by (simp add: header_decode_def header_fields)
next
  case False
  then have magic: "take 4 ((header_encode h)[i := b]) = u32_to_be MAGIC"
    by (simp add: header_fields)
  from False assms(1) consider "i = 4" | "i = 5" by linarith
  then show ?thesis
  proof cases
    case 1
    with magic assms(2) show ?thesis
      by (simp add: header_decode_def header_fields HEADER_LEN_def)
  next
    case 2
    with assms(3) have "kind_try_from b = Inl (UnknownFrameKind b)"
      by (simp add: kind_try_from_Inl_iff)
    with 2 magic show ?thesis
      by (simp add: header_decode_def header_fields HEADER_LEN_def)
  qed
qed

theorem header_corruption_detected_witness:
  "header_decode
     ((header_encode \<lparr>h_kind = KRequest, h_flags = 0, h_payload_len = 5\<rparr>)[4 := 2])
   = Inl (UnsupportedFrameVersion 2)"
  using header_corruption_detected
      [of 4 2 "\<lparr>h_kind = KRequest, h_flags = 0, h_payload_len = 5\<rparr>"]
  by (simp add: header_fields VERSION_def)

text \<open>C13: Framing does not depend on how the bytes arrive: for every chunking of the incoming bytes,
  with any number of interrupted reads, \<^verbatim>\<open>read_frame\<close> does what the reference parser does on the
  byte string. It returns the same frame or the same error and leaves the same bytes unread, and it
  blocks exactly when the bytes of a complete frame are missing and the peer has not closed.\<close>

theorem read_frame_chunking:
  assumes "clean (inbox s)"
  shows "map_state unread (read_frame m s) = parse_frame m (peer_closed s) (unread s)"
  using assms by (rule read_frame_parse)

definition demo_stream :: "read_ev list \<Rightarrow> stream" where
  "demo_stream evs =
     \<lparr>inbox = evs, peer_closed = True, room = [], outbox = [], flush_result = None\<rparr>"

lemma demo_stream_sel [simp]:
  "inbox (demo_stream evs) = evs" "peer_closed (demo_stream evs)" "room (demo_stream evs) = []"
  "outbox (demo_stream evs) = []" "flush_result (demo_stream evs) = None"
  by (simp_all add: demo_stream_def)

theorem read_frame_chunking_witness:
  "map_state unread (read_frame 16
     (demo_stream [Chunk (take 5 (frame_bytes KRequest 0 [104, 105])),
                   ReadErr (io_err Interrupted ''interrupted''),
                   Chunk (drop 5 (frame_bytes KRequest 0 [104, 105]) @ [1, 2])]))
   = Ok \<lparr>kind = KRequest, flags = 0, payload = [104, 105]\<rparr> [1, 2]"
proof -
  let ?fb = "frame_bytes KRequest 0 [104, 105]"
  let ?s = "demo_stream [Chunk (take 5 ?fb), ReadErr (io_err Interrupted ''interrupted''),
                   Chunk (drop 5 ?fb @ [1, 2])]"
  have "clean (inbox ?s)" by simp
  from read_frame_chunking [OF this, of 16]
  have "map_state unread (read_frame 16 ?s) = parse_frame 16 True (take 5 ?fb @ drop 5 ?fb @ [1, 2])"
    by (simp del: append_take_drop_id)
  also have "\<dots> = parse_frame 16 True (?fb @ [1, 2])"
    by (simp only: append_assoc [symmetric] append_take_drop_id)
  finally show ?thesis by (simp add: parse_frame_bytes)
qed

text \<open>C14: A frame survives partial input and output: what \<^verbatim>\<open>write_frame_with_flags\<close> put on the wire
  when it succeeded, whatever amounts the writer accepted at a time, reads back as the same kind,
  flags and payload in every chunking, and nothing beyond the frame is consumed.\<close>

theorem frame_roundtrip:
  assumes "write_frame_with_flags k fl pl s = Ok () s'" "outbox s = []"
    and "clean (inbox r)" "unread r = outbox s' @ rest" "length pl \<le> m"
  shows "\<exists>r'. read_frame m r = Ok \<lparr>kind = k, flags = fl, payload = pl\<rparr> r' \<and> unread r' = rest"
proof -
  have "length pl < 2 ^ 32"
    using assms(1) by (auto simp: write_frame_with_flags_def split: if_splits)
  moreover have "outbox s' = frame_bytes k fl pl"
    using write_frame_with_flags_out [of k fl pl s s'] assms(1,2) by auto
  ultimately show ?thesis
    using read_frame_bytes [of r k fl pl rest m] assms(3-5) by simp
qed

theorem frame_roundtrip_witness:
  "\<exists>s' r'. write_frame_with_flags KResponse 7 [1, 2, 3]
              ((demo_stream [])\<lparr>room := [Accept 3, Accept 10]\<rparr>) = Ok () s' \<and>
     read_frame 3 (demo_stream [Chunk (outbox s' @ [9])])
       = Ok \<lparr>kind = KResponse, flags = 7, payload = [1, 2, 3]\<rparr> r' \<and> unread r' = [9]"
proof -
  let ?s = "(demo_stream [])\<lparr>room := [Accept 3, Accept 10]\<rparr>"
  obtain s' where w: "write_frame_with_flags KResponse 7 [1, 2, 3] ?s = Ok () s'"
    by (simp add: write_frame_with_flags_def write_all_def flush_def HEADER_LEN_def)
  from frame_roundtrip [OF w, of "demo_stream [Chunk (outbox s' @ [9])]" "[9]" 3] w
  show ?thesis by auto
qed

text \<open>A write never puts anything else on the wire: whenever \<^verbatim>\<open>write_frame_with_flags\<close> returns,
  with success or with an error at any point, the bytes sent are a prefix of the frame's encoding,
  the whole of it on success, and a payload longer than \<open>u32::MAX\<close> is refused before the first
  byte.\<close>

theorem write_frame_prefix:
  assumes "final (write_frame_with_flags k fl pl s) = Some s'"
  shows "\<exists>j. outbox s' = outbox s @ take j (frame_bytes k fl pl) \<and>
             (write_frame_with_flags k fl pl s = Ok () s' \<longrightarrow> length (frame_bytes k fl pl) \<le> j) \<and>
             (2 ^ 32 \<le> length pl \<longrightarrow> j = 0 \<and>
                write_frame_with_flags k fl pl s = Err (PayloadTooLarge (length pl) (2 ^ 32 - 1)) s)"
proof (cases "2 ^ 32 \<le> length pl")
  case True
  with assms show ?thesis by (auto simp: write_frame_with_flags_def intro: exI [of _ 0])
next
  case False
  with write_frame_with_flags_out [OF assms] show ?thesis by auto
qed

theorem write_frame_prefix_witness:
  "\<exists>s' j. final (write_frame_with_flags KPing 0 []
       ((demo_stream [])\<lparr>room := [Accept 5, WriteErr (io_err BrokenPipe ''broken pipe'')]\<rparr>)) = Some s' \<and>
     outbox s' = take j (frame_bytes KPing 0 [])"
proof -
  let ?s = "(demo_stream [])\<lparr>room := [Accept 5, WriteErr (io_err BrokenPipe ''broken pipe'')]\<rparr>"
  obtain s' where w: "final (write_frame_with_flags KPing 0 [] ?s) = Some s'"
    by (simp add: write_frame_with_flags_def write_all_def HEADER_LEN_def io_err_def)
  from write_frame_prefix [OF w] w show ?thesis by auto
qed

text \<open>C27: The payload limit holds on every stream, however the bytes arrive and whatever errors occur:
  \<^verbatim>\<open>read_frame\<close> never returns a payload longer than the configured maximum, and it reports
  \<^verbatim>\<open>PayloadTooLarge\<close> only for an announced length above that maximum, with both numbers. It never
  touches the writing side, never panics, and it returns whenever the peer closes.\<close>

theorem read_frame_limits:
  "(\<forall>f s'. read_frame m s = Ok f s' \<longrightarrow> length (payload f) \<le> m) \<and>
   (\<forall>n x s'. read_frame m s = Err (PayloadTooLarge n x) s' \<longrightarrow> x = m \<and> m < n \<and> n < 2 ^ 32) \<and>
   (\<forall>s'. final (read_frame m s) = Some s' \<longrightarrow> outbox s' = outbox s \<and> room s' = room s) \<and>
   (\<forall>s'. read_frame m s \<noteq> Panic s') \<and>
   (peer_closed s \<longrightarrow> returns (read_frame m s))"
proof (intro conjI allI impI)
  fix n x s' assume e: "read_frame m s = Err (PayloadTooLarge n x) s'"
  then show "x = m" "m < n" "n < 2 ^ 32"
    using unsigned_less [where 'a = nat and 'b = 32]
    by (auto simp: read_frame_def Let_def run_iffs header_decode_def kind_try_from_def
        split: if_splits)
qed (auto dest: read_frame_bound read_frame_final simp: returns_iff read_frame_closed)

theorem read_frame_limits_witness:
  "\<exists>s'. read_frame 4 (demo_stream [Chunk (frame_bytes KRequest 0 [1, 2, 3, 4, 5])])
       = Err (PayloadTooLarge 5 4) s' \<and> outbox s' = []"
proof -
  let ?s = "demo_stream [Chunk (frame_bytes KRequest 0 [1, 2, 3, 4, 5])]"
  have c: "clean (inbox ?s)" by simp
  have dt: "header_decode (take 12 (frame_bytes KRequest 0 [1, 2, 3, 4, 5]))
      = Inr \<lparr>h_kind = KRequest, h_flags = 0, h_payload_len = 5\<rparr>"
    using hdr.dec_take by (simp add: frame_bytes_def HEADER_LEN_def)
  have "map_state unread (read_frame 4 ?s) = Err (PayloadTooLarge 5 4) [1, 2, 3, 4, 5]"
    by (simp only: read_frame_parse [OF c])
      (simp add: parse_frame_def dt Let_def, simp add: frame_bytes_def HEADER_LEN_def)
  then obtain s' where s': "read_frame 4 ?s = Err (PayloadTooLarge 5 4) s'"
    by (cases "read_frame 4 ?s") auto
  with read_frame_limits [of 4 ?s] show ?thesis by auto
qed

end
