(* ===== verification/World.thy ===== *)
theory World imports Frame begin

text \<open>
  What the crate sees of the operating system through Rust's standard library: a file system, a
  monotonic clock, connections and the processes around it, as one record \<open>world\<close>, with one
  function per system call the source makes.

  Interference and failure are part of the world. \<open>sched\<close> lists, for each system call to come,
  the events other processes cause before it (files appear or vanish, clients connect, processes
  exit, a signal arrives, time passes) and the error with which the call fails, if any. A theorem
  that quantifies over all worlds therefore holds for every interleaving with other processes and
  for every failure of a call; after the list ends nothing interferes.
\<close>

section \<open>State\<close>

datatype node = Dir | File nat bytes | Sock nat bool | Link path
  \<comment> \<open>a regular file has an inode number and contents; a socket has an inode number and tells
     whether a process still listens on it\<close>

datatype event =
    PutNode path node
  | DelNode path
  | ProcUp i32
  | ProcDown i32
  | Arrive stream
  | Signal
  | Elapse nat

datatype action =
    ACreate path | AUnlink path | ABind path | AClose path
  | ASpawn path "rstring list" | AStart | ARequest bytes | AStop

record world =
  fs :: "path \<Rightarrow> node option"
  next_ino :: nat
  clock :: nat
  signalled :: bool
  pid_self :: u32
  procs :: "i32 list"
  foreign_procs :: "i32 list"
  backlog :: "stream list"
  dials :: "stream list"
  served :: "stream list"
  trace :: "action list"
  sched :: "(event list \<times> io_error option) list"

fun apply_event :: "event \<Rightarrow> world \<Rightarrow> world" where
  "apply_event (PutNode p nd) w = w\<lparr>fs := (fs w)(p := Some nd)\<rparr>"
| "apply_event (DelNode p) w = w\<lparr>fs := (fs w)(p := None)\<rparr>"
| "apply_event (ProcUp i) w = w\<lparr>procs := i # procs w\<rparr>"
| "apply_event (ProcDown i) w = w\<lparr>procs := removeAll i (procs w)\<rparr>"
| "apply_event (Arrive s) w = w\<lparr>backlog := backlog w @ [s]\<rparr>"
| "apply_event Signal w = w\<lparr>signalled := True\<rparr>"
| "apply_event (Elapse d) w = w\<lparr>clock := clock w + d\<rparr>"

definition enter :: "world \<Rightarrow> io_error option \<times> world" where
  "enter w =
     (case sched w of
        [] \<Rightarrow> (None, w)
      | (evs, fault) # rest \<Rightarrow> (fault, fold apply_event evs (w\<lparr>sched := rest\<rparr>)))"

definition syscall ::
  "(world \<Rightarrow> (io_error, 'a, world) run) \<Rightarrow> world \<Rightarrow> (io_error, 'a, world) run" where
  "syscall f w = (case enter w of (Some e, w1) \<Rightarrow> Err e w1 | (None, w1) \<Rightarrow> f w1)"

definition record_action :: "action \<Rightarrow> world \<Rightarrow> world" where
  "record_action a w = w\<lparr>trace := trace w @ [a]\<rparr>"

section \<open>Path lookup\<close>

primrec follow :: "nat \<Rightarrow> (path \<Rightarrow> node option) \<Rightarrow> path \<Rightarrow> io_kind + node" where
  "follow 0 m p =
     (case m p of None \<Rightarrow> Inl NotFound | Some (Link q) \<Rightarrow> Inl FilesystemLoop | Some nd \<Rightarrow> Inr nd)"
| "follow (Suc n) m p =
     (case m p of None \<Rightarrow> Inl NotFound | Some (Link q) \<Rightarrow> follow n m q | Some nd \<Rightarrow> Inr nd)"

definition lookup :: "path \<Rightarrow> world \<Rightarrow> io_kind + node" where
  "lookup p w = follow 40 (fs w) p"

definition dir_at :: "path \<Rightarrow> world \<Rightarrow> bool" where
  "dir_at p w \<longleftrightarrow> p = [] \<or> lookup p w = Inr Dir"

definition os_error :: "io_kind \<Rightarrow> io_error" where
  "os_error k = io_err k
     (case k of
        NotFound \<Rightarrow> ''No such file or directory (os error 2)''
      | AlreadyExists \<Rightarrow> ''File exists (os error 17)''
      | ConnectionRefused \<Rightarrow> ''Connection refused (os error 111)''
      | NotADirectory \<Rightarrow> ''Not a directory (os error 20)''
      | IsADirectory \<Rightarrow> ''Is a directory (os error 21)''
      | FilesystemLoop \<Rightarrow> ''Too many levels of symbolic links (os error 40)''
      | AddrInUse \<Rightarrow> ''Address already in use (os error 98)''
      | WouldBlock \<Rightarrow> ''Resource temporarily unavailable (os error 11)''
      | _ \<Rightarrow> ''os error'')"

lemma io_kind_os_error [simp]: "io_kind (os_error k) = k"
  by (simp add: os_error_def)

text \<open>A new directory entry needs a free name in an existing directory.\<close>

definition entry_error :: "path \<Rightarrow> io_kind \<Rightarrow> world \<Rightarrow> io_kind option" where
  "entry_error p taken w =
     (if p = [] \<or> fs w p \<noteq> None then Some taken
      else if dir_at (butlast p) w then None
      else case lookup (butlast p) w of Inl k \<Rightarrow> Some k | Inr _ \<Rightarrow> Some NotADirectory)"

section \<open>File system calls\<close>

definition path_exists :: "path \<Rightarrow> world \<Rightarrow> ('e, bool, world) run" where
  "path_exists p w =
     (case enter w of
        (Some e, w1) \<Rightarrow> Ok False w1
      | (None, w1) \<Rightarrow> Ok (p = [] \<or> \<not> isl (lookup p w1)) w1)"

definition is_dir :: "path \<Rightarrow> world \<Rightarrow> ('e, bool, world) run" where
  "is_dir p w =
     (case enter w of (Some e, w1) \<Rightarrow> Ok False w1 | (None, w1) \<Rightarrow> Ok (dir_at p w1) w1)"

definition metadata :: "path \<Rightarrow> world \<Rightarrow> (io_error, node, world) run" where
  "metadata p = syscall (\<lambda>w. case lookup p w of Inl k \<Rightarrow> Err (os_error k) w | Inr nd \<Rightarrow> Ok nd w)"

definition symlink_metadata :: "path \<Rightarrow> world \<Rightarrow> (io_error, node, world) run" where
  "symlink_metadata p =
     syscall (\<lambda>w. case fs w p of None \<Rightarrow> Err (os_error NotFound) w | Some nd \<Rightarrow> Ok nd w)"

definition mkdir :: "path \<Rightarrow> world \<Rightarrow> (io_error, unit, world) run" where
  "mkdir p = syscall (\<lambda>w.
     case entry_error p AlreadyExists w of
       Some k \<Rightarrow> Err (os_error k) w
     | None \<Rightarrow> Ok () (w\<lparr>fs := (fs w)(p := Some Dir)\<rparr>))"

text \<open>\<^verbatim>\<open>fs::create_dir_all\<close>: try, create the parents, try again; a directory that is already
  there, whoever made it, is success.\<close>

function create_dir_all :: "path \<Rightarrow> world \<Rightarrow> (io_error, unit, world) run" where
  "create_dir_all p w =
     (if p = [] then Ok () w
      else case mkdir p w of
        Err e w1 \<Rightarrow>
          if io_kind e = NotFound then
            and_then (create_dir_all (butlast p) w1) (\<lambda>_ w2.
              case mkdir p w2 of
                Err e2 w3 \<Rightarrow> and_then (is_dir p w3) (\<lambda>d w4. if d then Ok () w4 else Err e2 w4)
              | r \<Rightarrow> r)
          else and_then (is_dir p w1) (\<lambda>d w2. if d then Ok () w2 else Err e w2)
      | r \<Rightarrow> r)"
  by pat_completeness auto
termination
  by (relation "measure (\<lambda>(p, w). length p)") auto

declare create_dir_all.simps [simp del]

definition invalid_utf8 :: io_error where
  "invalid_utf8 = io_err InvalidData ''stream did not contain valid UTF-8''"

definition read_to_string :: "path \<Rightarrow> world \<Rightarrow> (io_error, rstring, world) run" where
  "read_to_string p = syscall (\<lambda>w.
     case lookup p w of
       Inl k \<Rightarrow> Err (os_error k) w
     | Inr nd \<Rightarrow>
       (case nd of
          File i c \<Rightarrow> if utf8_valid c then Ok c w else Err invalid_utf8 w
        | Dir \<Rightarrow> Err (os_error IsADirectory) w
        | _ \<Rightarrow> Err (os_error (OtherKind 6)) w))"

text \<open>\<^verbatim>\<open>OpenOptions::new().create_new(true).write(true).open\<close>; the handle is the inode.\<close>

definition create_new :: "path \<Rightarrow> world \<Rightarrow> (io_error, nat, world) run" where
  "create_new p = syscall (\<lambda>w.
     case entry_error p AlreadyExists w of
       Some k \<Rightarrow> Err (os_error k) w
     | None \<Rightarrow>
       Ok (next_ino w)
         (record_action (ACreate p)
           (w\<lparr>fs := (fs w)(p := Some (File (next_ino w) [])), next_ino := Suc (next_ino w)\<rparr>)))"

text \<open>A write through a handle reaches the file the handle was opened on; it is visible under the
  path only while the path still names that file.\<close>

definition write_handle :: "path \<Rightarrow> nat \<Rightarrow> bytes \<Rightarrow> world \<Rightarrow> (io_error, unit, world) run" where
  "write_handle p ino bs = syscall (\<lambda>w.
     case fs w p of
       Some (File i c) \<Rightarrow>
         Ok () (if i = ino then w\<lparr>fs := (fs w)(p := Some (File i (c @ bs)))\<rparr> else w)
     | _ \<Rightarrow> Ok () w)"

definition remove_file :: "path \<Rightarrow> world \<Rightarrow> (io_error, unit, world) run" where
  "remove_file p = syscall (\<lambda>w.
     case fs w p of
       None \<Rightarrow> Err (os_error NotFound) w
     | Some Dir \<Rightarrow> Err (os_error IsADirectory) w
     | Some _ \<Rightarrow> Ok () (record_action (AUnlink p) (w\<lparr>fs := (fs w)(p := None)\<rparr>)))"

section \<open>Socket calls\<close>

definition silent_stream :: stream where
  "silent_stream =
     \<lparr>inbox = [], peer_closed = False, room = [], outbox = [], flush_result = None\<rparr>"

text \<open>\<^verbatim>\<open>UnixStream::connect\<close>. What the peer will answer is the next entry of \<open>dials\<close>.\<close>

definition unix_connect :: "path \<Rightarrow> world \<Rightarrow> (io_error, stream, world) run" where
  "unix_connect p = syscall (\<lambda>w.
     case lookup p w of
       Inl k \<Rightarrow> Err (os_error k) w
     | Inr (Sock i True) \<Rightarrow>
       (case dials w of
          [] \<Rightarrow> Ok silent_stream w
        | s # rest \<Rightarrow> Ok s (w\<lparr>dials := rest\<rparr>))
     | Inr _ \<Rightarrow> Err (os_error ConnectionRefused) w)"

text \<open>\<^verbatim>\<open>UnixListener::bind\<close>; the listener is its socket's inode.\<close>

definition listener_bind :: "path \<Rightarrow> world \<Rightarrow> (io_error, nat, world) run" where
  "listener_bind p = syscall (\<lambda>w.
     case entry_error p AddrInUse w of
       Some k \<Rightarrow> Err (os_error k) w
     | None \<Rightarrow>
       Ok (next_ino w)
         (record_action (ABind p)
           (w\<lparr>fs := (fs w)(p := Some (Sock (next_ino w) True)), next_ino := Suc (next_ino w)\<rparr>)))"

definition set_nonblocking :: "world \<Rightarrow> (io_error, unit, world) run" where
  "set_nonblocking = syscall (\<lambda>w. Ok () w)"

definition accept :: "world \<Rightarrow> (io_error, stream, world) run" where
  "accept = syscall (\<lambda>w.
     case backlog w of
       [] \<Rightarrow> Err (os_error WouldBlock) w
     | s # rest \<Rightarrow> Ok s (w\<lparr>backlog := rest\<rparr>))"

text \<open>Dropping the listener closes the socket; the file stays. Dropping a connection closes it.\<close>

definition close_listener :: "path \<Rightarrow> nat \<Rightarrow> world \<Rightarrow> world" where
  "close_listener p ino w =
     record_action (AClose p)
       (case fs w p of
          Some (Sock i True) \<Rightarrow> if i = ino then w\<lparr>fs := (fs w)(p := Some (Sock i False))\<rparr> else w
        | _ \<Rightarrow> w)"

definition close_stream :: "stream \<Rightarrow> world \<Rightarrow> world" where
  "close_stream s w = w\<lparr>served := served w @ [s]\<rparr>"

section \<open>Time\<close>

definition now :: "world \<Rightarrow> ('e, nat, world) run" where
  "now w = (let w1 = snd (enter w) in Ok (clock w1) w1)"

definition sleep :: "duration \<Rightarrow> world \<Rightarrow> ('e, unit, world) run" where
  "sleep d w = (let w1 = snd (enter w) in Ok () (w1\<lparr>clock := clock w1 + d\<rparr>))"

text \<open>\<^verbatim>\<open>Instant + Duration\<close> panics when the sum does not fit the platform's clock, which counts
  seconds in an \<^verbatim>\<open>i64\<close>.\<close>

definition instant_add :: "nat \<Rightarrow> duration \<Rightarrow> world \<Rightarrow> ('e, nat, world) run" where
  "instant_add t d w = (if t + d < 2 ^ 63 * 1000000000 then Ok (t + d) w else Panic w)"

section \<open>Third-party calls\<close>

text \<open>
  The \<^verbatim>\<open>libc\<close> and \<^verbatim>\<open>signal_hook\<close> crates are parameters: any functions of these types.
    \<^item> \<open>kill0 L pid w\<close> is the result of \<^verbatim>\<open>kill(pid, 0)\<close> and the \<^verbatim>\<open>errno\<close> it leaves;
    \<^item> \<open>poll1 L ms w\<close> is the result of \<^verbatim>\<open>poll\<close> on the listener with a timeout of \<open>ms\<close>
      milliseconds, its \<^verbatim>\<open>revents\<close>, the error left behind, and the world it returns in;
    \<^item> \<open>setsid L w\<close> is the result of \<^verbatim>\<open>setsid()\<close> in the child and the error it leaves;
    \<^item> \<open>register_signal L sig w\<close> is the result of registering the shutdown flag for a signal.
\<close>

record libc =
  kill0 :: "i32 \<Rightarrow> world \<Rightarrow> i32 \<times> int"
  poll1 :: "i32 \<Rightarrow> world \<Rightarrow> i32 \<times> u16 \<times> io_error \<times> world"
  setsid :: "world \<Rightarrow> i32 \<times> io_error"
  register_signal :: "int \<Rightarrow> world \<Rightarrow> io_error + unit"

definition EPERM :: int where "EPERM = 1"
definition POLLIN :: u16 where "POLLIN = 1"
definition SIGINT :: int where "SIGINT = 2"
definition SIGTERM :: int where "SIGTERM = 15"

end
