(* ===== verification/World_Laws.thy ===== *)
theory World_Laws imports World begin

text \<open>
  Laws of the system calls. First, relations between the world before and after a call that every
  call respects (\<open>wait_relation\<close> for the calls that only wait and serve, \<open>env_relation\<close> for those
  that change files, \<open>client_relation\<close> for those of a client, \<open>world_relation\<close> for those that record
  an action): the clock never runs
  backwards, no process is started by anything but the spawn operation, the process keeps its
  identity. Second, the result of each
  call when the paths it uses are left alone by others (\<open>calm\<close>).
\<close>

section \<open>Every way a computation can end\<close>

fun ends_in :: "('w \<Rightarrow> bool) \<Rightarrow> ('e, 'a, 'w) run \<Rightarrow> bool" where
  "ends_in Q (Ok x w) = Q w"
| "ends_in Q (Err e w) = Q w"
| "ends_in Q (Panic w) = Q w"
| "ends_in Q Hang = True"

lemma ends_in_final: "ends_in Q r \<longleftrightarrow> (\<forall>w. final r = Some w \<longrightarrow> Q w)"
  by (cases r) auto

lemma ends_in_map_err [simp]: "ends_in Q (map_err g r) = ends_in Q r"
  by (cases r) auto

lemma ends_in_lift_result [simp]: "ends_in Q (lift_result r w) = Q w"
  by (cases r) auto

lemma ends_in_mono: "ends_in Q r \<Longrightarrow> (\<And>w. Q w \<Longrightarrow> Q' w) \<Longrightarrow> ends_in Q' r"
  by (cases r) auto

lemma ends_in_and_then:
  "ends_in Q (and_then m f) \<longleftrightarrow>
   (case m of Ok x w \<Rightarrow> ends_in Q (f x w) | _ \<Rightarrow> ends_in Q m)"
  by (cases m) auto

text \<open>Total correctness of one outcome: it returns, with \<open>Q\<close> on success and \<open>E\<close> on error.\<close>

fun post :: "('a \<Rightarrow> 'w \<Rightarrow> bool) \<Rightarrow> ('e \<Rightarrow> 'w \<Rightarrow> bool) \<Rightarrow> ('e, 'a, 'w) run \<Rightarrow> bool" where
  "post Q E (Ok x w) = Q x w"
| "post Q E (Err e w) = E e w"
| "post Q E (Panic w) = False"
| "post Q E Hang = False"

abbreviation settled :: "('e, 'a, 'w) run \<Rightarrow> bool" where
  "settled \<equiv> post (\<lambda>_ _. True) (\<lambda>_ _. True)"

lemma post_map_err: "post Q E (map_err g r) = post Q (\<lambda>e. E (g e)) r"
  by (cases r) auto

lemma post_mono:
  "post Q E r \<Longrightarrow> (\<And>x w. Q x w \<Longrightarrow> Q' x w) \<Longrightarrow> (\<And>e w. E e w \<Longrightarrow> E' e w) \<Longrightarrow> post Q' E' r"
  by (cases r) auto

lemma post_and_then:
  "post Q' E m \<Longrightarrow> (\<And>x w. Q' x w \<Longrightarrow> post Q E (f x w)) \<Longrightarrow> post Q E (and_then m f)"
  by (cases m) auto

lemma post_seq:
  "post Q' E' m \<Longrightarrow> (\<And>x w. Q' x w \<Longrightarrow> post Q E (f x w)) \<Longrightarrow> (\<And>e w. E' e w \<Longrightarrow> E e w) \<Longrightarrow>
   post Q E (and_then m f)"
  by (cases m) auto

lemma post_match:
  "post Q' E' m \<Longrightarrow> (\<And>x w. Q' x w \<Longrightarrow> post Q E (f x w)) \<Longrightarrow> (\<And>e w. E' e w \<Longrightarrow> post Q E (g e w)) \<Longrightarrow>
   post Q E (case m of Ok x w \<Rightarrow> f x w | Err e w \<Rightarrow> g e w | Panic w \<Rightarrow> h w | Hang \<Rightarrow> d)"
  by (cases m) auto

lemma post_settled: "settled r \<Longrightarrow> ends_in Q r \<Longrightarrow> post (\<lambda>_. Q) (\<lambda>_. Q) r"
  by (cases r) auto

lemma post_iff: "post Q E r \<longleftrightarrow> (\<exists>x w. r = Ok x w \<and> Q x w) \<or> (\<exists>e w. r = Err e w \<and> E e w)"
  by (cases r) auto

lemma settled_lift_result [simp]: "settled (lift_result r w)"
  by (cases r) auto

lemma settled_syscall: "(\<And>v. settled (f v)) \<Longrightarrow> settled (syscall f w)"
  by (auto simp: syscall_def split: prod.split option.split)

lemma settled_calls [simp]:
  "settled (path_exists p w)" "settled (is_dir p w)" "settled (mkdir p w)"
  "settled (read_to_string p w)" "settled (create_new p w)" "settled (write_handle p i bs w)"
  "settled (remove_file p w)" "settled (metadata p w)" "settled (symlink_metadata p w)"
  "settled (unix_connect p w)" "settled (listener_bind p w)" "settled (set_nonblocking w)"
  "settled (accept w)" "settled (now w)" "settled (sleep d w)"
  by (auto simp: path_exists_def is_dir_def mkdir_def read_to_string_def create_new_def
      write_handle_def remove_file_def metadata_def symlink_metadata_def unix_connect_def
      listener_bind_def set_nonblocking_def accept_def now_def sleep_def Let_def
      intro!: settled_syscall
      split: prod.split option.split sum.split node.split bool.split list.split)

lemma settled_create_dir_all [simp]: "settled (create_dir_all p w)"
proof (induction p w rule: create_dir_all.induct)
  case (1 p w)
  have dir: "settled (and_then (is_dir p v) (\<lambda>d w2. if d then Ok () w2 else Err e w2))"
    for v and e :: io_error
    by (rule post_and_then [OF settled_calls(2)]) simp
  show ?case
  proof (cases "mkdir p w")
    case (Err e w1)
    with 1 show ?thesis
      by (subst create_dir_all.simps)
        (auto intro!: dir post_and_then post_match [OF settled_calls(3)])
  qed (use settled_calls(3) [of p w] in \<open>simp_all add: create_dir_all.simps\<close>)
qed

text \<open>Partial correctness, for what may block: if it returns, then with \<open>Q\<close> or with \<open>E\<close>; it never
  panics.\<close>

fun partly :: "('a \<Rightarrow> 'w \<Rightarrow> bool) \<Rightarrow> ('e \<Rightarrow> 'w \<Rightarrow> bool) \<Rightarrow> ('e, 'a, 'w) run \<Rightarrow> bool" where
  "partly Q E (Ok x w) = Q x w"
| "partly Q E (Err e w) = E e w"
| "partly Q E (Panic w) = False"
| "partly Q E Hang = True"

lemma post_partly:
  "post Q E r \<Longrightarrow> (\<And>x w. Q x w \<Longrightarrow> Q' x w) \<Longrightarrow> (\<And>e w. E e w \<Longrightarrow> E' e w) \<Longrightarrow> partly Q' E' r"
  by (cases r) auto

lemma partly_mono:
  "partly Q E r \<Longrightarrow> (\<And>x w. Q x w \<Longrightarrow> Q' x w) \<Longrightarrow> (\<And>e w. E e w \<Longrightarrow> E' e w) \<Longrightarrow> partly Q' E' r"
  by (cases r) auto

lemma partly_seq:
  "partly Q' E' m \<Longrightarrow> (\<And>x w. Q' x w \<Longrightarrow> partly Q E (f x w)) \<Longrightarrow> (\<And>e w. E' e w \<Longrightarrow> E e w) \<Longrightarrow>
   partly Q E (and_then m f)"
  by (cases m) auto

lemma partly_match:
  "partly Q' E' m \<Longrightarrow> (\<And>x w. Q' x w \<Longrightarrow> partly Q E (f x w)) \<Longrightarrow>
   (\<And>e w. E' e w \<Longrightarrow> partly Q E (g e w)) \<Longrightarrow>
   partly Q E (case m of Ok x w \<Rightarrow> f x w | Err e w \<Rightarrow> g e w | Panic w \<Rightarrow> h w | Hang \<Rightarrow> Hang)"
  by (cases m) auto

section \<open>Relations that every call respects\<close>

fun is_spawn :: "action \<Rightarrow> bool" where
  "is_spawn (ASpawn p args) = True"
| "is_spawn _ = False"

definition spawns :: "world \<Rightarrow> action list" where
  "spawns w = filter is_spawn (trace w)"

locale call_relation =
  fixes R :: "world \<Rightarrow> world \<Rightarrow> bool"
  assumes R_refl: "R w w"
    and R_trans: "R u v \<Longrightarrow> R v w \<Longrightarrow> R u w"
    and R_enter: "R w (snd (enter w))"
    and R_served: "R w (w\<lparr>served := sv\<rparr>)"
begin

lemma seq_R:
  "ends_in (R w) m \<Longrightarrow> (\<And>x w1. m = Ok x w1 \<Longrightarrow> R w w1 \<Longrightarrow> ends_in (R w1) (f x w1)) \<Longrightarrow>
   ends_in (R w) (and_then m f)"
  by (cases m) (auto intro: ends_in_mono R_trans)

lemma weaken_R: "R w v \<Longrightarrow> ends_in (R v) r \<Longrightarrow> ends_in (R w) r"
  by (auto intro: ends_in_mono R_trans)

lemma enter_R: "enter w = (x, w1) \<Longrightarrow> R w w1"
  using R_enter [of w] by simp

lemma syscall_R: "(\<And>v. ends_in (R v) (f v)) \<Longrightarrow> ends_in (R w) (syscall f w)"
  by (auto simp: syscall_def dest!: enter_R intro: weaken_R split: prod.split option.split)

lemma path_exists_R: "ends_in (R w) (path_exists p w)"
  by (auto simp: path_exists_def dest!: enter_R split: prod.split option.split)

lemma is_dir_R: "ends_in (R w) (is_dir p w)"
  by (auto simp: is_dir_def dest!: enter_R split: prod.split option.split)

lemma metadata_R: "ends_in (R w) (metadata p w)"
  unfolding metadata_def by (rule syscall_R) (auto intro: R_refl split: sum.split)

lemma symlink_metadata_R: "ends_in (R w) (symlink_metadata p w)"
  unfolding symlink_metadata_def by (rule syscall_R) (auto intro: R_refl split: option.split)

lemma read_to_string_R: "ends_in (R w) (read_to_string p w)"
  unfolding read_to_string_def
  by (rule syscall_R) (auto intro: R_refl split: sum.split node.split)

lemma set_nonblocking_R: "ends_in (R w) (set_nonblocking w)"
  unfolding set_nonblocking_def by (rule syscall_R) (auto intro: R_refl)

lemma close_stream_R: "R w (close_stream s w)"
  by (simp add: close_stream_def R_served)

lemma now_R: "ends_in (R w) (now w)"
  by (simp add: now_def Let_def R_enter)

lemma instant_add_R: "ends_in (R w) (instant_add t d w)"
  by (simp add: instant_add_def R_refl)

end

text \<open>Relations that also survive waiting for time to pass, and taking a connection.\<close>

locale clock_relation = call_relation R for R :: "world \<Rightarrow> world \<Rightarrow> bool" +
  assumes R_clock: "clock w \<le> t \<Longrightarrow> R w (w\<lparr>clock := t\<rparr>)"
begin

lemma sleep_R: "ends_in (R w) (sleep d w)"
  by (simp add: sleep_def Let_def) (rule R_trans [OF R_enter R_clock], simp)

end

locale wait_relation = clock_relation R for R :: "world \<Rightarrow> world \<Rightarrow> bool" +
  assumes R_backlog: "backlog w = s # bl \<Longrightarrow> R w (w\<lparr>backlog := bl\<rparr>)"
begin

lemma accept_R: "ends_in (R w) (accept w)"
  unfolding accept_def by (rule syscall_R) (auto intro: R_refl R_backlog split: list.split)

end

text \<open>Relations that also survive the calls that change files and connect.\<close>

locale env_relation = call_relation R for R :: "world \<Rightarrow> world \<Rightarrow> bool" +
  assumes R_fs: "R w (w\<lparr>fs := m\<rparr>)"
    and R_ino: "R w (w\<lparr>next_ino := n\<rparr>)"
    and R_dials: "R w (w\<lparr>dials := ds\<rparr>)"
begin

lemma R_then_fs: "R w v \<Longrightarrow> R w (v\<lparr>fs := m\<rparr>)"
  by (rule R_trans [OF _ R_fs])

lemma R_new_file: "R w (w\<lparr>fs := m, next_ino := n\<rparr>)"
  using R_trans [OF R_fs R_ino] by simp

lemma mkdir_R: "ends_in (R w) (mkdir p w)"
  unfolding mkdir_def by (rule syscall_R) (auto intro: R_refl R_fs split: option.split)

lemma create_dir_all_R: "ends_in (R w) (create_dir_all p w)"
proof (induction p w rule: create_dir_all.induct)
  case (1 p w)
  show ?case
  proof (cases "mkdir p w")
    case (Err e w1)
    then have w1: "R w w1" using mkdir_R [of w p] by simp
    have dir: "ends_in (R v) (and_then (is_dir p v) (\<lambda>d w4. if d then Ok () w4 else Err e2 w4))"
      for v and e2 :: io_error
      by (rule seq_R [OF is_dir_R]) (auto intro: R_refl)
    have again: "ends_in (R v)
        (case mkdir p v of
           Err e2 w3 \<Rightarrow> and_then (is_dir p w3) (\<lambda>d w4. if d then Ok () w4 else Err e2 w4)
         | r \<Rightarrow> r)" for v
      using mkdir_R [of v p] by (auto intro: weaken_R dir split: run.split)
    show ?thesis
    proof (cases "p = []")
      case False
      have "ends_in (R w1) (create_dir_all (butlast p) w1)" if "io_kind e = NotFound"
        using "1.IH" [OF False Err that] .
      with Err False show ?thesis
        by (subst create_dir_all.simps)
          (auto intro!: weaken_R [OF w1] seq_R dir again)
    qed (simp add: create_dir_all.simps R_refl)
  qed (use mkdir_R [of w p] in \<open>simp_all add: create_dir_all.simps R_refl\<close>)
qed

lemma write_handle_R: "ends_in (R w) (write_handle p i bs w)"
  unfolding write_handle_def
  by (rule syscall_R) (auto intro: R_refl R_fs split: option.split node.split)

lemma unix_connect_R: "ends_in (R w) (unix_connect p w)"
  unfolding unix_connect_def
  by (rule syscall_R)
    (auto intro: R_refl R_dials split: sum.split node.split bool.split list.split)

end

text \<open>Relations that survive what a client does.\<close>

locale client_relation = env_relation R + clock_relation R for R :: "world \<Rightarrow> world \<Rightarrow> bool"

text \<open>Relations that also survive the recorded actions other than starting a process.\<close>

locale world_relation = env_relation R for R :: "world \<Rightarrow> world \<Rightarrow> bool" +
  assumes R_action: "\<not> is_spawn a \<Longrightarrow> R w (record_action a w)"
begin

lemma R_then_action: "R w v \<Longrightarrow> \<not> is_spawn a \<Longrightarrow> R w (record_action a v)"
  by (rule R_trans [OF _ R_action])

lemma create_new_R: "ends_in (R w) (create_new p w)"
  unfolding create_new_def
  by (rule syscall_R) (auto intro: R_refl R_then_action R_new_file split: option.split)

lemma remove_file_R: "ends_in (R w) (remove_file p w)"
  unfolding remove_file_def
  by (rule syscall_R) (auto intro: R_refl R_then_action R_fs split: option.split node.split)

lemma listener_bind_R: "ends_in (R w) (listener_bind p w)"
  unfolding listener_bind_def
  by (rule syscall_R) (auto intro: R_refl R_then_action R_new_file split: option.split)

lemma close_listener_R: "R w (close_listener p i w)"
  by (auto simp: close_listener_def intro!: R_then_action intro: R_refl R_fs
      split: option.split node.split bool.split)

end

text \<open>Relations that survive all of it.\<close>

locale loop_relation = world_relation R + client_relation R + wait_relation R for R :: "world \<Rightarrow> world \<Rightarrow> bool"

lemma clock_fold_events: "clock w \<le> clock (fold apply_event evs w)"
proof (induction evs arbitrary: w)
  case (Cons e evs)
  have "clock w \<le> clock (apply_event e w)" by (cases e) auto
  also have "\<dots> \<le> clock (fold apply_event evs (apply_event e w))" by (rule Cons.IH)
  finally show ?case by simp
qed simp

lemma apply_event_frame [simp]:
  "trace (apply_event e w) = trace w" "pid_self (apply_event e w) = pid_self w"
  "served (apply_event e w) = served w" "next_ino (apply_event e w) = next_ino w"
  "dials (apply_event e w) = dials w" "sched (apply_event e w) = sched w"
  by (cases e; simp)+

lemma fold_events_frame [simp]:
  "trace (fold apply_event evs w) = trace w"
  "pid_self (fold apply_event evs w) = pid_self w"
  "served (fold apply_event evs w) = served w"
  "next_ino (fold apply_event evs w) = next_ino w"
  "dials (fold apply_event evs w) = dials w"
  "sched (fold apply_event evs w) = sched w"
  by (induction evs arbitrary: w) simp_all

lemma enter_frame:
  "trace (snd (enter w)) = trace w" "pid_self (snd (enter w)) = pid_self w"
  "served (snd (enter w)) = served w" "next_ino (snd (enter w)) = next_ino w"
  "dials (snd (enter w)) = dials w" "sched (snd (enter w)) = tl (sched w)"
  "clock w \<le> clock (snd (enter w))"
  using clock_fold_events [of "w\<lparr>sched := tl (sched w)\<rparr>"]
  by (auto simp: enter_def split: list.split)

interpretation log: client_relation "\<lambda>w v. trace v = trace w"
  by unfold_locales (auto simp: enter_frame)

interpretation log: wait_relation "\<lambda>w v. trace v = trace w"
  by unfold_locales simp

lemma post_syscall_log:
  "(\<And>v. trace v = trace w \<Longrightarrow> post Q E (f v)) \<Longrightarrow> (\<And>e v. trace v = trace w \<Longrightarrow> E e v) \<Longrightarrow>
   post Q E (syscall f w)"
  using enter_frame(1) [of w] by (auto simp: syscall_def split: prod.split option.split)

lemma create_new_log:
  "post (\<lambda>_ v. trace v = trace w @ [ACreate p]) (\<lambda>_ v. trace v = trace w) (create_new p w)"
  unfolding create_new_def
  by (rule post_syscall_log) (auto simp: record_action_def split: option.split)

lemma remove_file_log:
  "post (\<lambda>_ v. trace v = trace w @ [AUnlink p]) (\<lambda>_ v. trace v = trace w) (remove_file p w)"
  unfolding remove_file_def
  by (rule post_syscall_log) (auto simp: record_action_def split: option.split node.split)

lemma listener_bind_log:
  "post (\<lambda>_ v. trace v = trace w @ [ABind p]) (\<lambda>_ v. trace v = trace w) (listener_bind p w)"
  unfolding listener_bind_def
  by (rule post_syscall_log) (auto simp: record_action_def split: option.split)

interpretation time: loop_relation "\<lambda>w v. clock w \<le> clock v"
  by unfold_locales (auto simp: enter_frame record_action_def)

interpretation spawn: loop_relation "\<lambda>w v. spawns v = spawns w"
  by unfold_locales (auto simp: spawns_def enter_frame record_action_def)

interpretation self: loop_relation "\<lambda>w v. pid_self v = pid_self w"
  by unfold_locales (auto simp: enter_frame record_action_def)

interpretation env: loop_relation "\<lambda>w v. length (sched v) \<le> length (sched w)"
  by unfold_locales (auto simp: enter_frame record_action_def)

section \<open>Calls on paths that others leave alone\<close>

text \<open>No call to come fails, and no other process touches the paths of \<open>P\<close>. Anything else may
  still happen: other files change, clients connect, processes come and go, time passes.\<close>

fun avoids :: "path set \<Rightarrow> event \<Rightarrow> bool" where
  "avoids P (PutNode p nd) = (p \<notin> P)"
| "avoids P (DelNode p) = (p \<notin> P)"
| "avoids P _ = True"

definition calm :: "path set \<Rightarrow> world \<Rightarrow> bool" where
  "calm P w \<longleftrightarrow> (\<forall>(evs, fault) \<in> set (sched w). fault = None \<and> (\<forall>e \<in> set evs. avoids P e))"

text \<open>The world \<open>v\<close> is \<open>w\<close> after such interference.\<close>

definition same :: "path set \<Rightarrow> world \<Rightarrow> world \<Rightarrow> bool" where
  "same P w v \<longleftrightarrow>
     (\<forall>p \<in> P. fs v p = fs w p) \<and> trace v = trace w \<and> pid_self v = pid_self w \<and>
     next_ino v = next_ino w \<and> dials v = dials w \<and> served v = served w \<and> calm P v"

text \<open>The entry \<open>p\<close> and its directory are both among the paths left alone.\<close>

definition placed :: "path set \<Rightarrow> path \<Rightarrow> world \<Rightarrow> bool" where
  "placed P p w \<longleftrightarrow>
     p \<noteq> [] \<and> p \<in> P \<and>
     (butlast p = [] \<or> (butlast p \<in> P \<and> fs w (butlast p) = Some Dir))"

lemma calm_no_sched [simp]: "sched w = [] \<Longrightarrow> calm P w"
  by (simp add: calm_def)

lemma same_refl: "calm P w \<Longrightarrow> same P w w"
  by (simp add: same_def)

lemma same_trans: "same P u v \<Longrightarrow> same P v w \<Longrightarrow> same P u w"
  by (simp add: same_def)

lemma same_calm [simp]: "same P w v \<Longrightarrow> calm P v"
  by (simp add: same_def)

lemma same_fs: "same P w v \<Longrightarrow> p \<in> P \<Longrightarrow> fs v p = fs w p"
  by (simp add: same_def)

lemma placed_same: "same P w v \<Longrightarrow> placed P p v = placed P p w"
  by (auto simp: same_def placed_def)

lemma placed_upd:
  "placed P p (w\<lparr>fs := (fs w)(p := nd)\<rparr>) = placed P p w"
proof -
  have "butlast p \<noteq> p" if "p \<noteq> []" using that by (metis append_butlast_last_id not_Cons_self2 self_append_conv)
  then show ?thesis by (auto simp: placed_def)
qed

lemma calm_more [simp]:
  "calm P (w\<lparr>fs := m\<rparr>) = calm P w" "calm P (w\<lparr>next_ino := n\<rparr>) = calm P w"
  "calm P (record_action a w) = calm P w" "calm P (w\<lparr>served := x\<rparr>) = calm P w"
  "calm P (w\<lparr>clock := c\<rparr>) = calm P w" "calm P (w\<lparr>dials := x\<rparr>) = calm P w"
  "calm P (w\<lparr>backlog := x\<rparr>) = calm P w" "calm P (w\<lparr>signalled := b\<rparr>) = calm P w"
  by (simp_all add: calm_def record_action_def)

lemma record_action_sel [simp]:
  "fs (record_action a w) = fs w" "trace (record_action a w) = trace w @ [a]"
  "clock (record_action a w) = clock w" "pid_self (record_action a w) = pid_self w"
  "next_ino (record_action a w) = next_ino w" "sched (record_action a w) = sched w"
  "dials (record_action a w) = dials w" "served (record_action a w) = served w"
  "backlog (record_action a w) = backlog w" "signalled (record_action a w) = signalled w"
  by (simp_all add: record_action_def)

lemma placed_record [simp]: "placed P p (record_action a w) = placed P p w"
  by (simp add: placed_def)

lemma fold_events_fs:
  "\<forall>e \<in> set evs. avoids P e \<Longrightarrow> p \<in> P \<Longrightarrow> fs (fold apply_event evs w) p = fs w p"
proof (induction evs arbitrary: w)
  case (Cons e evs)
  then have "fs (apply_event e w) p = fs w p" by (cases e) auto
  with Cons show ?case by simp
qed simp

lemma enter_calm: "calm P w \<Longrightarrow> \<exists>v. enter w = (None, v) \<and> same P w v"
  by (cases "sched w")
    (auto simp: enter_def same_def calm_def fold_events_fs)

lemma syscall_calm: "calm P w \<Longrightarrow> \<exists>v. syscall f w = f v \<and> same P w v"
  using enter_calm [of P w] by (auto simp: syscall_def)

text \<open>Without events left nothing happens at a call.\<close>

lemma enter_idle: "sched w = [] \<Longrightarrow> enter w = (None, w)"
  by (simp add: enter_def)

lemma lookup_plain: "fs w p = Some nd \<Longrightarrow> (\<forall>q. nd \<noteq> Link q) \<Longrightarrow> lookup p w = Inr nd"
  by (cases nd) (simp_all add: lookup_def numeral_eq_Suc)

lemma lookup_missing: "fs w p = None \<Longrightarrow> lookup p w = Inl NotFound"
  by (simp add: lookup_def numeral_eq_Suc)

lemma placed_entry_error:
  "placed P p w \<Longrightarrow> entry_error p k w = (if fs w p = None then None else Some k)"
  by (auto simp: placed_def entry_error_def dir_at_def lookup_plain)

lemma path_exists_calm:
  assumes "calm P w" "p \<in> P" "\<forall>q. fs w p \<noteq> Some (Link q)" "p \<noteq> []"
  shows "\<exists>v. path_exists p w = Ok (fs w p \<noteq> None) v \<and> same P w v"
proof -
  obtain v where v: "enter w = (None, v)" "same P w v" using enter_calm [OF assms(1)] by auto
  with assms have "fs v p = fs w p" by (simp add: same_fs)
  with assms v show ?thesis
    by (cases "fs w p") (auto simp: path_exists_def lookup_plain lookup_missing)
qed

lemma parent_dirs_calm:
  assumes "calm P w" "placed P p w"
  shows "\<exists>v. create_dir_all (butlast p) w = Ok () v \<and> same P w v"
proof (cases "butlast p = []")
  case True
  with assms show ?thesis by (auto simp: create_dir_all.simps same_refl)
next
  case False
  with assms(2) have dir: "butlast p \<in> P" "fs w (butlast p) = Some Dir" by (auto simp: placed_def)
  obtain v where v: "enter w = (None, v)" "same P w v" using enter_calm [OF assms(1)] by auto
  then have m: "mkdir (butlast p) w = Err (os_error AlreadyExists) v"
    using dir by (simp add: mkdir_def syscall_def entry_error_def same_fs)
  obtain u where u: "enter v = (None, u)" "same P v u" using enter_calm [of P v] v by auto
  then have "(is_dir (butlast p) v :: (io_error, bool, world) run) = Ok True u"
    using dir v by (simp add: is_dir_def dir_at_def same_fs lookup_plain)
  with False m v u show ?thesis
    by (subst create_dir_all.simps) (auto intro: same_trans)
qed

lemma read_to_string_calm:
  assumes "calm P w" "p \<in> P" "fs w p = Some (File i c)"
  shows "\<exists>v. read_to_string p w = (if utf8_valid c then Ok c v else Err invalid_utf8 v) \<and> same P w v"
proof -
  obtain v where v: "enter w = (None, v)" "same P w v" using enter_calm [OF assms(1)] by auto
  with assms show ?thesis
    by (auto simp: read_to_string_def syscall_def lookup_plain same_fs)
qed

lemma read_to_string_missing_calm:
  assumes "calm P w" "p \<in> P" "fs w p = None"
  shows "\<exists>v. read_to_string p w = Err (os_error NotFound) v \<and> same P w v"
proof -
  obtain v where v: "enter w = (None, v)" "same P w v" using enter_calm [OF assms(1)] by auto
  with assms show ?thesis
    by (auto simp: read_to_string_def syscall_def lookup_missing same_fs)
qed

lemma remove_file_calm:
  assumes "calm P w" "p \<in> P" "fs w p = Some nd" "nd \<noteq> Dir"
  shows "\<exists>v. remove_file p w = Ok () (record_action (AUnlink p) (v\<lparr>fs := (fs v)(p := None)\<rparr>)) \<and>
             same P w v"
proof -
  obtain v where v: "enter w = (None, v)" "same P w v" using enter_calm [OF assms(1)] by auto
  with assms show ?thesis
    by (cases nd) (auto simp: remove_file_def syscall_def same_fs)
qed

lemma remove_file_missing_calm:
  assumes "calm P w" "p \<in> P" "fs w p = None"
  shows "\<exists>v. remove_file p w = Err (os_error NotFound) v \<and> same P w v"
proof -
  obtain v where v: "enter w = (None, v)" "same P w v" using enter_calm [OF assms(1)] by auto
  with assms show ?thesis by (auto simp: remove_file_def syscall_def same_fs)
qed

lemma create_new_calm:
  assumes "calm P w" "placed P p w" "fs w p = None"
  shows "\<exists>v. create_new p w =
           Ok (next_ino w) (record_action (ACreate p)
             (v\<lparr>fs := (fs v)(p := Some (File (next_ino w) [])), next_ino := Suc (next_ino w)\<rparr>)) \<and>
           same P w v"
proof -
  obtain v where v: "enter w = (None, v)" "same P w v" using enter_calm [OF assms(1)] by auto
  then have "entry_error p AlreadyExists v = None" "next_ino v = next_ino w"
    using assms placed_entry_error [of P p v] placed_same [OF v(2), of p]
    by (auto simp: same_def placed_def)
  with v show ?thesis by (intro exI [of _ v]) (simp add: create_new_def syscall_def)
qed

lemma write_handle_calm:
  assumes "calm P w" "p \<in> P" "fs w p = Some (File i c)"
  shows "\<exists>v. write_handle p i bs w = Ok () (v\<lparr>fs := (fs v)(p := Some (File i (c @ bs)))\<rparr>) \<and>
             same P w v"
proof -
  obtain v where v: "enter w = (None, v)" "same P w v" using enter_calm [OF assms(1)] by auto
  with assms show ?thesis by (auto simp: write_handle_def syscall_def same_fs)
qed

lemma listener_bind_calm:
  assumes "calm P w" "placed P p w" "fs w p = None"
  shows "\<exists>v. listener_bind p w =
           Ok (next_ino w) (record_action (ABind p)
             (v\<lparr>fs := (fs v)(p := Some (Sock (next_ino w) True)), next_ino := Suc (next_ino w)\<rparr>)) \<and>
           same P w v"
proof -
  obtain v where v: "enter w = (None, v)" "same P w v" using enter_calm [OF assms(1)] by auto
  then have "entry_error p AddrInUse v = None" "next_ino v = next_ino w"
    using assms placed_entry_error [of P p v] placed_same [OF v(2), of p]
    by (auto simp: same_def placed_def)
  with v show ?thesis by (intro exI [of _ v]) (simp add: listener_bind_def syscall_def)
qed

lemma symlink_metadata_calm:
  assumes "calm P w" "p \<in> P" "fs w p = Some nd"
  shows "\<exists>v. symlink_metadata p w = Ok nd v \<and> same P w v"
proof -
  obtain v where v: "enter w = (None, v)" "same P w v" using enter_calm [OF assms(1)] by auto
  with assms show ?thesis by (auto simp: symlink_metadata_def syscall_def same_fs)
qed

lemma unix_connect_stale_calm:
  assumes "calm P w" "p \<in> P" "fs w p = Some (Sock i False)"
  shows "\<exists>v. unix_connect p w = Err (os_error ConnectionRefused) v \<and> same P w v"
proof -
  obtain v where v: "enter w = (None, v)" "same P w v" using enter_calm [OF assms(1)] by auto
  with assms show ?thesis
    by (auto simp: unix_connect_def syscall_def same_fs lookup_plain)
qed

lemma unix_connect_live_calm:
  assumes "calm P w" "p \<in> P" "fs w p = Some (Sock i True)"
  shows "\<exists>s v. unix_connect p w = Ok s (v\<lparr>dials := tl (dials w)\<rparr>) \<and> same P w v"
proof -
  obtain v where v: "enter w = (None, v)" "same P w v" using enter_calm [OF assms(1)] by auto
  then have "dials v = dials w" by (simp add: same_def)
  with v assms show ?thesis
    by (cases "dials w")
      (simp_all add: unix_connect_def syscall_def same_fs lookup_plain exI [of _ v])
qed

lemma set_nonblocking_calm:
  assumes "calm P w"
  shows "\<exists>v. set_nonblocking w = Ok () v \<and> same P w v"
  using syscall_calm [OF assms, of "\<lambda>w. Ok () w"] by (auto simp: set_nonblocking_def)

section \<open>The environment on its own\<close>

text \<open>What may happen while the process waits in \<^verbatim>\<open>poll\<close>: some of the scheduled events, and the
  passing of time.\<close>

definition env_step :: "world \<Rightarrow> world \<Rightarrow> bool" where
  "env_step w v \<longleftrightarrow>
     (\<exists>n t. clock (((\<lambda>u. snd (enter u)) ^^ n) w) \<le> t \<and>
            v = (((\<lambda>u. snd (enter u)) ^^ n) w)\<lparr>clock := t\<rparr>)"

lemma env_step_tick: "clock w \<le> t \<Longrightarrow> env_step w (w\<lparr>clock := t\<rparr>)"
  unfolding env_step_def by (rule exI [of _ 0], rule exI [of _ t]) simp

lemma env_step_enter:
  "enter w = (x, v) \<Longrightarrow> clock v \<le> t \<Longrightarrow> env_step w (v\<lparr>clock := t\<rparr>)"
  unfolding env_step_def by (rule exI [of _ 1], rule exI [of _ t]) simp

context clock_relation
begin

lemma env_step_R: "env_step w v \<Longrightarrow> R w v"
proof -
  have "R w (((\<lambda>u. snd (enter u)) ^^ n) w)" for n
    by (induction n) (auto intro: R_refl R_trans R_enter)
  then show "env_step w v \<Longrightarrow> R w v"
    by (auto simp: env_step_def intro: R_trans R_clock)
qed

end

lemma env_step_same:
  assumes "calm P w" "env_step w v"
  shows "same P w v"
proof -
  have "same P w (((\<lambda>u. snd (enter u)) ^^ n) w)" for n
  proof (induction n)
    case (Suc n)
    then show ?case
      using enter_calm [of P "((\<lambda>u. snd (enter u)) ^^ n) w"] by (auto intro: same_trans)
  qed (simp add: assms(1) same_refl)
  with assms(2) show ?thesis by (auto simp: env_step_def same_def)
qed

text \<open>The connections that wait or will arrive, in order of arrival.\<close>

fun arrivals :: "event list \<Rightarrow> stream list" where
  "arrivals [] = []"
| "arrivals (Arrive s # evs) = s # arrivals evs"
| "arrivals (_ # evs) = arrivals evs"

definition pending :: "world \<Rightarrow> stream list" where
  "pending w = backlog w @ concat (map (\<lambda>(evs, fault). arrivals evs) (sched w))"

lemma pending_more [simp]:
  "pending (w\<lparr>clock := t\<rparr>) = pending w" "pending (w\<lparr>served := x\<rparr>) = pending w"
  "pending (w\<lparr>fs := m\<rparr>) = pending w" "pending (w\<lparr>signalled := b\<rparr>) = pending w"
  "pending (w\<lparr>next_ino := n\<rparr>) = pending w" "pending (w\<lparr>dials := ds\<rparr>) = pending w"
  by (simp_all add: pending_def)

lemma backlog_fold_events: "backlog (fold apply_event evs w) = backlog w @ arrivals evs"
proof (induction evs arbitrary: w)
  case (Cons e evs)
  then show ?case by (cases e) simp_all
qed simp

lemma pending_enter [simp]: "pending (snd (enter w)) = pending w"
  by (auto simp: enter_def pending_def backlog_fold_events split: list.split)

lemma pending_enter_eq: "enter w = (x, v) \<Longrightarrow> pending v = pending w"
  using pending_enter [of w] by simp

lemma pending_env_step: "env_step w v \<Longrightarrow> pending v = pending w"
proof -
  have "pending (((\<lambda>u. snd (enter u)) ^^ n) w) = pending w" for n
    by (induction n) simp_all
  then show "env_step w v \<Longrightarrow> pending v = pending w" by (auto simp: env_step_def)
qed

lemma accept_pending:
  "post (\<lambda>s v. pending w = s # pending v) (\<lambda>_ v. pending v = pending w) (accept w)"
proof (cases "enter w")
  case (Pair fault v)
  with pending_enter_eq [OF Pair] show ?thesis
    by (cases fault; cases "backlog v")
      (simp_all add: accept_def syscall_def, simp_all add: pending_def)
qed

lemma set_nonblocking_pending:
  "post (\<lambda>_ v. pending v = pending w) (\<lambda>_ v. pending v = pending w) (set_nonblocking w)"
proof (cases "enter w")
  case (Pair fault v)
  with pending_enter_eq [OF Pair] show ?thesis
    by (cases fault) (simp_all add: set_nonblocking_def syscall_def)
qed

lemma pending_close_stream [simp]: "pending (close_stream s w) = pending w"
  by (simp add: close_stream_def)

lemma served_calls:
  "post (\<lambda>_ v. served v = served w) (\<lambda>_ v. served v = served w) (accept w)"
  "post (\<lambda>_ v. served v = served w) (\<lambda>_ v. served v = served w) (set_nonblocking w)"
  using enter_frame(3) [of w]
  by (auto simp: accept_def set_nonblocking_def syscall_def split: prod.split option.split list.split)

text \<open>No call makes up a connection.\<close>

lemma pending_record [simp]: "pending (record_action a w) = pending w"
  by (simp add: pending_def record_action_def)

interpretation arrive: loop_relation "\<lambda>w v. set (pending v) \<subseteq> set (pending w)"
  by unfold_locales (auto simp: pending_def [of "_\<lparr>backlog := _\<rparr>"], auto simp: pending_def)

text \<open>Only taking a connection changes which connections are to come, and without events to come no
  signal arrives and no time passes.\<close>

interpretation queue: world_relation "\<lambda>w v. pending v = pending w \<and>
    (sched w = [] \<longrightarrow> sched v = [] \<and> signalled v = signalled w \<and> clock v = clock w)"
  by unfold_locales (auto simp: enter_idle)

end
