(* ===== verification/Fixtures.thy ===== *)
theory Fixtures imports World_Laws begin

text \<open>
  Concrete worlds and a concrete \<^verbatim>\<open>libc\<close> for the examples and witnesses of the development: a
  world in which nothing interferes, and a \<^verbatim>\<open>libc\<close> whose \<^verbatim>\<open>kill\<close> answers from a fixed set of
  live processes and whose \<^verbatim>\<open>poll\<close> behaves as POSIX documents it on the model's backlog and clock.
\<close>

definition base_world :: "(path \<Rightarrow> node option) \<Rightarrow> world" where
  "base_world m =
     \<lparr>fs = m, next_ino = 7, clock = 0, signalled = False, pid_self = 42, procs = [],
      foreign_procs = [], backlog = [], dials = [], served = [], trace = [], sched = []\<rparr>"

lemma base_world_sel [simp]:
  "fs (base_world m) = m" "next_ino (base_world m) = 7" "clock (base_world m) = 0"
  "signalled (base_world m) = False" "pid_self (base_world m) = 42"
  "backlog (base_world m) = []" "dials (base_world m) = []" "served (base_world m) = []"
  "trace (base_world m) = []" "sched (base_world m) = []"
  by (simp_all add: base_world_def)

text \<open>\<^verbatim>\<open>poll\<close>: ready at once when a connection is waiting; otherwise the next events happen,
  and either a connection has arrived, or a signal interrupts the call, or the timeout passes.
  Every call takes at least one nanosecond.\<close>

definition poll_model :: "i32 \<Rightarrow> world \<Rightarrow> i32 \<times> u16 \<times> io_error \<times> world" where
  "poll_model ms w =
     (let eintr = io_err Interrupted ''Interrupted system call (os error 4)'';
          pause = nat (sint ms) * 1000000 + 1 in
      if backlog w \<noteq> [] then (1, POLLIN, eintr, w\<lparr>clock := clock w + 1\<rparr>)
      else case enter w of
        (Some e, v) \<Rightarrow> (- 1, 0, e, v\<lparr>clock := clock v + 1\<rparr>)
      | (None, v) \<Rightarrow>
        if backlog v \<noteq> [] then (1, POLLIN, eintr, v\<lparr>clock := clock v + 1\<rparr>)
        else if signalled v \<and> \<not> signalled w then (- 1, 0, eintr, v\<lparr>clock := clock v + 1\<rparr>)
        else (0, 0, eintr, v\<lparr>clock := clock v + pause\<rparr>))"

definition model_libc :: "(i32 \<Rightarrow> bool) \<Rightarrow> libc" where
  "model_libc alive =
     \<lparr>kill0 = (\<lambda>pid w. if pid = 0 \<or> alive pid then (0, 0) else (- 1, 3)),
      poll1 = poll_model,
      setsid = (\<lambda>w. (1, os_error (OtherKind 0))),
      register_signal = (\<lambda>sig w. Inr ())\<rparr>"

abbreviation quiet_libc :: libc where "quiet_libc \<equiv> model_libc (\<lambda>_. False)"

section \<open>The contract of poll\<close>

text \<open>
  What the event loop relies on, as POSIX documents \<^verbatim>\<open>poll\<close> on one descriptor: while it waits only
  the environment acts and time passes; a result of zero means the timeout has elapsed; a readiness
  report on the listener means that a connection can be accepted; a connection that waits already
  is reported at once.
\<close>

definition poll_ready :: "i32 \<times> u16 \<times> io_error \<times> world \<Rightarrow> bool" where
  "poll_ready r = (case r of (rc, revents, e, v) \<Rightarrow> 0 < sint rc \<and> and revents POLLIN \<noteq> 0)"

locale poll_contract =
  fixes L :: libc
  assumes poll_env: "poll1 L ms w = (rc, revents, e, v) \<Longrightarrow> env_step w v"
    and poll_time: "poll1 L ms w = (rc, revents, e, v) \<Longrightarrow> clock w < clock v"
    and poll_elapsed:
      "poll1 L ms w = (rc, revents, e, v) \<Longrightarrow> rc = 0 \<Longrightarrow>
       clock w + nat (sint ms) * 1000000 \<le> clock v"
    and poll_accepts: "poll_ready (poll1 L ms w) \<Longrightarrow> poll1 L ms w = (rc, revents, e, v) \<Longrightarrow> backlog v \<noteq> []"
    and poll_reports: "backlog w \<noteq> [] \<Longrightarrow> poll_ready (poll1 L ms w)"

lemma poll_model_cases:
  assumes "poll_model ms w = (rc, revents, e, v)"
  obtains "backlog w \<noteq> []" "rc = 1" "revents = POLLIN" "v = w\<lparr>clock := clock w + 1\<rparr>"
  | u fault where "backlog w = []" "enter w = (fault, u)" "rc = - 1" "revents = 0" "v = u\<lparr>clock := clock u + 1\<rparr>"
  | u where "backlog w = []" "enter w = (None, u)" "backlog u \<noteq> []" "rc = 1" "revents = POLLIN"
      "v = u\<lparr>clock := clock u + 1\<rparr>"
  | u where "backlog w = []" "enter w = (None, u)" "rc = 0" "revents = 0"
      "v = u\<lparr>clock := clock u + (nat (sint ms) * 1000000 + 1)\<rparr>"
  using assms
  by (auto simp: poll_model_def Let_def split: if_splits prod.splits option.splits)

lemma model_libc_poll [simp]: "poll1 (model_libc alive) = poll_model"
  by (simp add: model_libc_def)

interpretation model_poll: poll_contract "model_libc alive" for alive
proof
  fix ms rc :: i32 and revents :: u16 and e and v w :: world
  assume h: "poll1 (model_libc alive) ms w = (rc, revents, e, v)"
  then have p: "poll_model ms w = (rc, revents, e, v)" by simp
  show "env_step w v"
    using p by (cases rule: poll_model_cases) (auto intro: env_step_tick env_step_enter)
  have later: "clock w \<le> clock u" if "enter w = (x, u)" for x u
    using enter_frame(7) [of w] that by simp
  show "clock w < clock v"
    using p by (cases rule: poll_model_cases) (auto dest: later)
  show "clock w + nat (sint ms) * 1000000 \<le> clock v" if "rc = 0"
    using p that by (cases rule: poll_model_cases) (auto dest: later)
  show "backlog v \<noteq> []" if "poll_ready (poll1 (model_libc alive) ms w)"
  proof -
    from that h have "poll_ready (rc, revents, e, v)" by simp
    with p show ?thesis by (cases rule: poll_model_cases) (auto simp: poll_ready_def)
  qed
next
  fix w :: world and ms
  assume "backlog w \<noteq> []"
  then show "poll_ready (poll1 (model_libc alive) ms w)"
    by (simp add: poll_ready_def poll_model_def POLLIN_def)
qed

end
