(* ===== verification/Pidfile.thy ===== *)
theory Pidfile imports Fixtures begin

text \<open>
  \<^verbatim>\<open>src/pidfile.rs\<close>: exclusive ownership of the PID file. \<open>claim\<close> is the claiming loop with its
  three attempts, \<open>drop_guard\<close> the guard's destructor. The abstract contract is
  \<open>claim_decision\<close>: what the entry found under the path entitles the claimer to.
\<close>

section \<open>Operations\<close>

record pid_guard =
  guard_path :: path

definition read_pid :: "path \<Rightarrow> world \<Rightarrow> (u32 option, world) result" where
  "read_pid path w =
     (case read_to_string path w of
        Ok content w \<Rightarrow>
          (case parse_u32 (trim content) of
             Some pid \<Rightarrow> Ok (Some pid) w
           | None \<Rightarrow> Ok None w)
      | Err err w \<Rightarrow> if io_kind err = NotFound then Ok None w else Err (Io err) w
      | Panic w \<Rightarrow> Panic w
      | Hang \<Rightarrow> Hang)"

text \<open>\<^verbatim>\<open>kill(pid as i32, 0)\<close>: the cast keeps the 32 bits and reads them as signed.\<close>

definition pid_alive :: "libc \<Rightarrow> u32 \<Rightarrow> world \<Rightarrow> bool" where
  "pid_alive L pid w =
     (let (rc, errno) = kill0 L pid w in if rc = 0 then True else errno = EPERM)"

definition is_process_alive :: "libc \<Rightarrow> u32 \<Rightarrow> world \<Rightarrow> ('e, bool, world) run" where
  "is_process_alive L pid w = (let w1 = snd (enter w) in Ok (pid_alive L pid w1) w1)"

definition remove_if_exists :: "path \<Rightarrow> world \<Rightarrow> (unit, world) result" where
  "remove_if_exists path w =
     (case remove_file path w of
        Ok _ w \<Rightarrow> Ok () w
      | Err err w \<Rightarrow> if io_kind err = NotFound then Ok () w else Err (Io err) w
      | Panic w \<Rightarrow> Panic w
      | Hang \<Rightarrow> Hang)"

definition pid_line :: "u32 \<Rightarrow> bytes" where
  "pid_line pid = show_nat (unat pid) @ [10]"

definition write_pid :: "path \<Rightarrow> nat \<Rightarrow> world \<Rightarrow> (pid_guard, world) result" where
  "write_pid path file w =
     and_then (map_err Io (write_handle path file (show_nat (unat (pid_self w))) w)) (\<lambda>_ w.
     and_then (map_err Io (write_handle path file [10] w)) (\<lambda>_ w.
     Ok \<lparr>guard_path = path\<rparr> w))"

primrec claim_attempts :: "nat \<Rightarrow> libc \<Rightarrow> path \<Rightarrow> world \<Rightarrow> (pid_guard, world) result" where
  "claim_attempts 0 L path w =
     and_then (read_pid path w) (\<lambda>pid w. Err (DaemonAlreadyRunning pid None) w)"
| "claim_attempts (Suc n) L path w =
     and_then (path_exists path w) (\<lambda>exists w.
     and_then
       (if exists then
          and_then (read_pid path w) (\<lambda>found w.
            case found of
              Some pid \<Rightarrow>
                and_then (is_process_alive L pid w) (\<lambda>alive w.
                  if alive then Err (DaemonAlreadyRunning (Some pid) None) w
                  else remove_if_exists path w)
            | None \<Rightarrow> remove_if_exists path w)
        else Ok () w) (\<lambda>_ w.
     case create_new path w of
       Ok file w \<Rightarrow> write_pid path file w
     | Err err w \<Rightarrow>
         if io_kind err = AlreadyExists then claim_attempts n L path w else Err (Io err) w
     | Panic w \<Rightarrow> Panic w
     | Hang \<Rightarrow> Hang))"

definition claim :: "libc \<Rightarrow> path \<Rightarrow> world \<Rightarrow> (pid_guard, world) result" where
  "claim L path w =
     and_then
       (case parent path of
          Some dir \<Rightarrow> map_err Io (create_dir_all dir w)
        | None \<Rightarrow> Ok () w) (\<lambda>_ w.
     claim_attempts 3 L path w)"

definition drop_guard :: "pid_guard \<Rightarrow> world \<Rightarrow> world" where
  "drop_guard g w =
     (case remove_file (guard_path g) w of Ok _ v \<Rightarrow> v | Err _ v \<Rightarrow> v | Panic v \<Rightarrow> v | Hang \<Rightarrow> w)"

section \<open>What every run of these operations respects\<close>

context env_relation
begin

lemma read_pid_R: "ends_in (R w) (read_pid path w)"
  using read_to_string_R [of w path]
  by (auto simp: read_pid_def split: run.split option.split)

lemma is_process_alive_R: "ends_in (R w) (is_process_alive L pid w)"
  by (simp add: is_process_alive_def Let_def R_enter)

lemma write_pid_R: "ends_in (R w) (write_pid path file w)"
  unfolding write_pid_def by (auto intro!: seq_R write_handle_R R_refl)

end

context world_relation
begin

lemma remove_if_exists_R: "ends_in (R w) (remove_if_exists path w)"
  using remove_file_R [of w path] by (auto simp: remove_if_exists_def split: run.split)

lemma claim_attempts_R: "ends_in (R w) (claim_attempts n L path w)"
proof (induction n arbitrary: w)
  case 0
  show ?case unfolding claim_attempts.simps by (rule seq_R [OF read_pid_R]) (simp add: R_refl)
next
  case (Suc n)
  have create: "ends_in (R v)
      (case create_new path v of
         Ok file w \<Rightarrow> write_pid path file w
       | Err err w \<Rightarrow>
           if io_kind err = AlreadyExists then claim_attempts n L path w else Err (Io err) w
       | Panic w \<Rightarrow> Panic w
       | Hang \<Rightarrow> Hang)" for v
    using create_new_R [of v path]
    by (cases "create_new path v")
      (auto intro!: Suc.IH write_pid_R intro: weaken_R)
  show ?case
    unfolding claim_attempts.simps
    by (intro seq_R create path_exists_R)
      (auto intro!: seq_R read_pid_R is_process_alive_R remove_if_exists_R R_refl split: option.split)
qed

lemma claim_R: "ends_in (R w) (claim L path w)"
  unfolding claim_def
  by (rule seq_R) (auto intro: create_dir_all_R R_refl claim_attempts_R split: option.split)

lemma drop_guard_R: "R w (drop_guard g w)"
  using remove_file_R [of w "guard_path g"]
  by (cases "remove_file (guard_path g) w") (auto simp: drop_guard_def R_refl)

end

section \<open>Reading back what was written\<close>

lemma parse_pid_line: "parse_u32 (trim (pid_line pid)) = Some pid"
  unfolding pid_line_def
  by (subst trim_digits_newline) (auto simp: parse_u32_show_nat dest: show_nat_digits)

lemma pid_line_utf8 [simp]: "utf8_valid (pid_line pid)"
  by (simp add: pid_line_def utf8_valid_pid_line)

section \<open>What a claim is entitled to\<close>

text \<open>The contract, on the entry found under the path: a missing file is taken, a file that names
  no live process is replaced, a file that names a live one refuses the claim. A file that is
  not UTF-8 refuses it too, with the read's error.\<close>

datatype claim_verdict = Take | Replace | RefusePid u32 | RefuseUnreadable

definition claim_decision :: "(u32 \<Rightarrow> bool) \<Rightarrow> bytes option \<Rightarrow> claim_verdict" where
  "claim_decision alive content =
     (case content of
        None \<Rightarrow> Take
      | Some c \<Rightarrow>
        if \<not> utf8_valid c then RefuseUnreadable
        else case parse_u32 (trim c) of
          None \<Rightarrow> Replace
        | Some pid \<Rightarrow> if alive pid then RefusePid pid else Replace)"

fun file_content :: "node option \<Rightarrow> bytes option" where
  "file_content (Some (File i c)) = Some c"
| "file_content _ = None"

definition plain_entry :: "path \<Rightarrow> world \<Rightarrow> bool" where
  "plain_entry p w \<longleftrightarrow> (case fs w p of None \<Rightarrow> True | Some (File i c) \<Rightarrow> True | _ \<Rightarrow> False)"

text \<open>The world after a successful claim: the file is the claimer's own, the other paths are as
  they were.\<close>

definition owns :: "path set \<Rightarrow> path \<Rightarrow> world \<Rightarrow> world \<Rightarrow> bool" where
  "owns P p w v \<longleftrightarrow>
     fs v p = Some (File (next_ino w) (pid_line (pid_self w))) \<and>
     (\<forall>q \<in> P - {p}. fs v q = fs w q) \<and> pid_self v = pid_self w \<and> dials v = dials w \<and>
     served v = served w \<and> calm P v"

text \<open>What each verdict means for the call.\<close>

definition claim_outcome ::
  "path set \<Rightarrow> path \<Rightarrow> world \<Rightarrow> (pid_guard, world) result \<Rightarrow> claim_verdict \<Rightarrow> bool" where
  "claim_outcome P p w r verdict =
     (case verdict of
        Take \<Rightarrow> \<exists>v. r = Ok \<lparr>guard_path = p\<rparr> v \<and> owns P p w v \<and> trace v = trace w @ [ACreate p]
      | Replace \<Rightarrow>
          \<exists>v. r = Ok \<lparr>guard_path = p\<rparr> v \<and> owns P p w v \<and>
              trace v = trace w @ [AUnlink p, ACreate p]
      | RefusePid q \<Rightarrow> \<exists>v. r = Err (DaemonAlreadyRunning (Some q) None) v \<and> same P w v
      | RefuseUnreadable \<Rightarrow> \<exists>v. r = Err (Io invalid_utf8) v \<and> same P w v)"

lemma write_pid_calm:
  assumes "calm P w" "p \<in> P" "fs w p = Some (File i [])"
  shows "\<exists>v. write_pid p i w = Ok \<lparr>guard_path = p\<rparr> v \<and>
             fs v p = Some (File i (pid_line (pid_self w))) \<and> (\<forall>q \<in> P - {p}. fs v q = fs w q) \<and>
             pid_self v = pid_self w \<and> dials v = dials w \<and> served v = served w \<and>
             trace v = trace w \<and> calm P v"
proof -
  obtain v where v: "write_handle p i (show_nat (unat (pid_self w))) w =
      Ok () (v\<lparr>fs := (fs v)(p := Some (File i (show_nat (unat (pid_self w)))))\<rparr>)" "same P w v"
    using write_handle_calm [OF assms] by auto
  define v' where "v' = v\<lparr>fs := (fs v)(p := Some (File i (show_nat (unat (pid_self w)))))\<rparr>"
  have "calm P v'" "fs v' p = Some (File i (show_nat (unat (pid_self w))))"
    using v(2) by (simp_all add: v'_def)
  from write_handle_calm [OF this(1) assms(2) this(2)] obtain u where
    u: "write_handle p i [10] v' = Ok () (u\<lparr>fs := (fs u)(p := Some (File i (pid_line (pid_self w))))\<rparr>)"
    "same P v' u"
    by (auto simp: pid_line_def)
  have "write_pid p i w = Ok \<lparr>guard_path = p\<rparr> (u\<lparr>fs := (fs u)(p := Some (File i (pid_line (pid_self w))))\<rparr>)"
    using v(1) u(1) by (simp add: write_pid_def v'_def)
  with v(2) u(2) show ?thesis by (auto simp: same_def v'_def)
qed

lemma create_own_calm:
  assumes "calm P w" "placed P p w" "fs w p = None"
  shows "\<exists>v1 v. create_new p w = Ok (next_ino w) v1 \<and>
                write_pid p (next_ino w) v1 = Ok \<lparr>guard_path = p\<rparr> v \<and>
                owns P p w v \<and> trace v = trace w @ [ACreate p]"
proof -
  obtain v where v: "create_new p w =
      Ok (next_ino w) (record_action (ACreate p)
        (v\<lparr>fs := (fs v)(p := Some (File (next_ino w) [])), next_ino := Suc (next_ino w)\<rparr>))"
    "same P w v"
    using create_new_calm [OF assms] by auto
  define v1 where "v1 = record_action (ACreate p)
        (v\<lparr>fs := (fs v)(p := Some (File (next_ino w) [])), next_ino := Suc (next_ino w)\<rparr>)"
  have "calm P v1" "p \<in> P" "fs v1 p = Some (File (next_ino w) [])"
    using v(2) assms(2) by (simp_all add: v1_def placed_def)
  from write_pid_calm [OF this] obtain u where
    u: "write_pid p (next_ino w) v1 = Ok \<lparr>guard_path = p\<rparr> u"
    "fs u p = Some (File (next_ino w) (pid_line (pid_self v1)))"
    "\<forall>q \<in> P - {p}. fs u q = fs v1 q" "pid_self u = pid_self v1" "dials u = dials v1"
    "served u = served v1" "trace u = trace v1" "calm P u"
    by auto
  have "owns P p w u" "trace u = trace w @ [ACreate p]"
    using u v(2) by (auto simp: owns_def v1_def same_def)
  with v(1) u(1) show ?thesis by (auto simp: v1_def)
qed

lemmas claim_attempt_unfold = claim_attempts.simps(2)
declare claim_attempts.simps [simp del]

lemma attempt_free_calm:
  assumes "calm P w" "placed P p w" "fs w p = None"
  shows "claim_outcome P p w (claim_attempts (Suc n) L p w) Take"
proof -
  have "p \<in> P" "p \<noteq> []" using assms(2) by (auto simp: placed_def)
  with path_exists_calm [of P w p] assms obtain v where
    v: "(path_exists p w :: (bool, world) result) = Ok False v" "same P w v"
    by (metis option.distinct(1))
  have "calm P v" "placed P p v" "fs v p = None"
    using v(2) assms \<open>p \<in> P\<close> by (simp_all add: placed_same same_fs)
  from create_own_calm [OF this] obtain v1 u where
    u: "create_new p v = Ok (next_ino v) v1" "write_pid p (next_ino v) v1 = Ok \<lparr>guard_path = p\<rparr> u"
    "owns P p v u" "trace u = trace v @ [ACreate p]"
    by auto
  have "owns P p w u" "trace u = trace w @ [ACreate p]"
    using u v(2) by (auto simp: owns_def same_def)
  with u v show ?thesis by (simp add: claim_outcome_def claim_attempt_unfold)
qed

lemma read_pid_calm:
  assumes "calm P w" "p \<in> P" "fs w p = Some (File i c)"
  shows "\<exists>v. read_pid p w =
           (if utf8_valid c then Ok (parse_u32 (trim c)) v else Err (Io invalid_utf8) v) \<and> same P w v"
  using read_to_string_calm [OF assms]
  by (auto simp: read_pid_def invalid_utf8_def split: option.split)

lemma remove_if_exists_calm:
  assumes "calm P w" "placed P p w" "fs w p = Some (File i c)"
  shows "\<exists>v. remove_if_exists p w = Ok () v \<and> calm P v \<and> placed P p v \<and> fs v p = None \<and>
             (\<forall>q \<in> P - {p}. fs v q = fs w q) \<and> trace v = trace w @ [AUnlink p] \<and>
             pid_self v = pid_self w \<and> next_ino v = next_ino w \<and> dials v = dials w \<and>
             served v = served w"
proof -
  have "p \<in> P" using assms(2) by (simp add: placed_def)
  with remove_file_calm [of P w p "File i c"] assms obtain v where
    v: "remove_file p w = Ok () (record_action (AUnlink p) (v\<lparr>fs := (fs v)(p := None)\<rparr>))" "same P w v"
    by auto
  then have "remove_if_exists p w = Ok () (record_action (AUnlink p) (v\<lparr>fs := (fs v)(p := None)\<rparr>))"
    by (simp add: remove_if_exists_def)
  moreover have "placed P p (record_action (AUnlink p) (v\<lparr>fs := (fs v)(p := None)\<rparr>))"
    using assms(2) v(2) by (simp add: placed_upd placed_same)
  ultimately show ?thesis using v(2) by (auto simp: same_def)
qed

text \<open>Once the entry may be replaced, the attempt removes it and creates its own.\<close>

lemma replace_calm:
  assumes "calm P w" "placed P p w" "fs w p = Some (File i c)" "same P w t"
    and res: "r = and_then (remove_if_exists p t) (\<lambda>_ w. case create_new p w of
          Ok file w \<Rightarrow> write_pid p file w
        | Err err w \<Rightarrow> if io_kind err = AlreadyExists then claim_attempts n L p w else Err (Io err) w
        | Panic w \<Rightarrow> Panic w | Hang \<Rightarrow> Hang)"
  shows "claim_outcome P p w r Replace"
proof -
  have "p \<in> P" using assms(2) by (simp add: placed_def)
  then have "calm P t" "placed P p t" "fs t p = Some (File i c)"
    using assms(2-4) by (simp_all add: placed_same same_fs)
  from remove_if_exists_calm [OF this] obtain s where
    s: "remove_if_exists p t = Ok () s" "calm P s" "placed P p s" "fs s p = None"
    "\<forall>q \<in> P - {p}. fs s q = fs t q" "trace s = trace t @ [AUnlink p]" "pid_self s = pid_self t"
    "next_ino s = next_ino t" "dials s = dials t" "served s = served t"
    by auto
  from create_own_calm [OF s(2-4)] obtain x y where
    x: "create_new p s = Ok (next_ino s) x" "write_pid p (next_ino s) x = Ok \<lparr>guard_path = p\<rparr> y"
    "owns P p s y" "trace y = trace s @ [ACreate p]"
    by auto
  have "owns P p w y" "trace y = trace w @ [AUnlink p, ACreate p]"
    using x s assms(4) by (auto simp: owns_def same_def)
  with res s x show ?thesis by (simp add: claim_outcome_def)
qed

lemma attempt_present_calm:
  assumes "calm P w" "placed P p w" "fs w p = Some (File i c)"
    and alive: "\<And>q v. pid_alive L q v = alive q"
  shows "claim_outcome P p w (claim_attempts (Suc n) L p w) (claim_decision alive (Some c))"
proof -
  have p: "p \<in> P" "p \<noteq> []" using assms(2) by (auto simp: placed_def)
  have "\<forall>q. fs w p \<noteq> Some (Link q)" using assms(3) by simp
  from path_exists_calm [OF assms(1) p(1) this p(2)] assms(3) obtain v where
    v: "(path_exists p w :: (bool, world) result) = Ok True v" "same P w v"
    by auto
  have pv: "calm P v" "fs v p = Some (File i c)"
    using v(2) assms p by (simp_all add: same_fs)
  from read_pid_calm [OF pv(1) p(1) pv(2)] obtain u where
    u: "read_pid p v = (if utf8_valid c then Ok (parse_u32 (trim c)) u else Err (Io invalid_utf8) u)"
    "same P v u"
    by auto
  have wu: "same P w u" using v(2) u(2) by (rule same_trans)
  show ?thesis
  proof (cases "utf8_valid c")
    case False
    with v u wu show ?thesis by (simp add: claim_decision_def claim_outcome_def claim_attempt_unfold)
  next
    case valid: True
    show ?thesis
    proof (cases "parse_u32 (trim c)")
      case None
      have "claim_outcome P p w (claim_attempts (Suc n) L p w) Replace"
        by (rule replace_calm [OF assms(1-3) wu, where n = n and L = L])
          (simp add: claim_attempt_unfold v u valid None)
      with None valid show ?thesis by (simp add: claim_decision_def)
    next
      case (Some q)
      obtain t where t: "enter u = (None, t)" "same P u t" using enter_calm [of P u] wu by auto
      have wt: "same P w t" using wu t(2) by (rule same_trans)
      show ?thesis
      proof (cases "alive q")
        case True
        with Some valid v u t wt show ?thesis
          by (simp add: claim_decision_def claim_outcome_def claim_attempt_unfold is_process_alive_def alive)
      next
        case False
        have "claim_outcome P p w (claim_attempts (Suc n) L p w) Replace"
          by (rule replace_calm [OF assms(1-3) wt, where n = n and L = L])
            (simp add: claim_attempt_unfold v u valid Some t False is_process_alive_def alive)
        with Some valid False show ?thesis by (simp add: claim_decision_def)
      qed
    qed
  qed
qed

lemma claim_attempts_calm:
  assumes "calm P w" "placed P p w" "plain_entry p w"
    and "\<And>q v. pid_alive L q v = alive q"
  shows "claim_outcome P p w (claim_attempts (Suc n) L p w) (claim_decision alive (file_content (fs w p)))"
proof (cases "fs w p")
  case None
  then show ?thesis using attempt_free_calm [OF assms(1,2)] by (simp add: claim_decision_def)
next
  case (Some nd)
  with assms(3) obtain i c where "fs w p = Some (File i c)"
    by (cases nd) (auto simp: plain_entry_def)
  with attempt_present_calm [OF assms(1,2) this assms(4)] show ?thesis by simp
qed

lemma outcome_after_same:
  assumes "same P w v" "claim_outcome P p v r verdict"
  shows "claim_outcome P p w r verdict"
proof -
  have "owns P p v u \<Longrightarrow> owns P p w u" and "same P v u \<Longrightarrow> same P w u" for u
    using assms(1) by (auto simp: owns_def same_def)
  moreover have "trace v = trace w" using assms(1) by (simp add: same_def)
  ultimately show ?thesis
    using assms(2) by (auto simp: claim_outcome_def split: claim_verdict.splits)
qed

lemma parent_calm:
  assumes "calm P w" "placed P p w"
  shows "\<exists>v. claim L p w = claim_attempts 3 L p v \<and> same P w v"
proof -
  obtain v where "create_dir_all (butlast p) w = Ok () v" "same P w v"
    using parent_dirs_calm [OF assms] by auto
  with assms(2) show ?thesis by (auto simp: claim_def parent_def placed_def)
qed

lemma claim_calm:
  assumes "calm P w" "placed P p w" "plain_entry p w"
    and "\<And>q v. pid_alive L q v = alive q"
  shows "claim_outcome P p w (claim L p w) (claim_decision alive (file_content (fs w p)))"
proof -
  obtain v where v: "claim L p w = claim_attempts (Suc 2) L p v" "same P w v"
    using parent_calm [OF assms(1,2), of L] by (auto simp: numeral_eq_Suc)
  have "p \<in> P" using assms(2) by (simp add: placed_def)
  then have at: "calm P v" "placed P p v" "plain_entry p v" "fs v p = fs w p"
    using v(2) assms(2,3) by (simp_all add: placed_same plain_entry_def same_fs)
  have "claim_outcome P p v (claim_attempts (Suc 2) L p v) (claim_decision alive (file_content (fs v p)))"
    by (rule claim_attempts_calm [OF at(1-3) assms(4)])
  then show ?thesis
    unfolding v(1) at(4) by (rule outcome_after_same [OF v(2)])
qed

section \<open>What a claim does to the file system, whatever others do\<close>

definition unlinked :: "nat \<Rightarrow> path \<Rightarrow> action list \<Rightarrow> world \<Rightarrow> bool" where
  "unlinked n p T v \<longleftrightarrow> (\<exists>k \<le> n. trace v = T @ replicate k (AUnlink p))"

definition created :: "nat \<Rightarrow> path \<Rightarrow> action list \<Rightarrow> world \<Rightarrow> bool" where
  "created n p T v \<longleftrightarrow> (\<exists>k \<le> n. trace v = T @ replicate k (AUnlink p) @ [ACreate p])"

lemma unlinked_0: "trace v = T \<Longrightarrow> unlinked 0 p T v"
  by (simp add: unlinked_def)

lemma unlinked_same: "unlinked m p T w \<Longrightarrow> trace v = trace w \<Longrightarrow> m \<le> n \<Longrightarrow> unlinked n p T v"
  by (auto simp: unlinked_def intro: le_trans)

lemma unlinked_created:
  "unlinked m p T w \<Longrightarrow> trace v = trace w @ [ACreate p] \<Longrightarrow> m \<le> n \<Longrightarrow> created n p T v"
  by (auto simp: unlinked_def created_def intro: le_trans)

lemma created_same: "created n p T w \<Longrightarrow> trace v = trace w \<Longrightarrow> created n p T v"
  by (simp add: created_def)

lemma settled_read_pid [simp]: "settled (read_pid p w)"
  unfolding read_pid_def by (rule post_match [OF settled_calls(4)]) (auto split: option.split)

lemma settled_is_process_alive [simp]: "settled (is_process_alive L q w)"
  by (simp add: is_process_alive_def Let_def)

lemma unlinked_Suc:
  assumes "unlinked n p T w" "trace v = trace w @ [AUnlink p]"
  shows "unlinked (Suc n) p T v"
proof -
  from assms obtain k where "k \<le> n" "trace v = T @ replicate k (AUnlink p) @ [AUnlink p]"
    by (auto simp: unlinked_def)
  then have "trace v = T @ replicate (Suc k) (AUnlink p)" by (simp add: replicate_append_same)
  with \<open>k \<le> n\<close> show ?thesis unfolding unlinked_def by (intro exI [of _ "Suc k"]) auto
qed

lemma remove_if_exists_log:
  assumes "unlinked n p T w"
  shows "post (\<lambda>_. unlinked (Suc n) p T) (\<lambda>_. unlinked (Suc n) p T) (remove_if_exists p w)"
  unfolding remove_if_exists_def
  by (rule post_match [OF remove_file_log])
    (auto intro: unlinked_same [OF assms] unlinked_Suc [OF assms])

lemma settled_write_pid: "settled (write_pid p i w)"
  unfolding write_pid_def
  by (auto intro!: post_and_then [OF settled_calls(6)] post_and_then simp: post_map_err)

lemmas read_pid_log = post_settled [OF settled_read_pid log.read_pid_R]
lemmas is_process_alive_log = post_settled [OF settled_is_process_alive log.is_process_alive_R]
lemmas path_exists_log = post_settled [OF settled_calls(1) log.path_exists_R]
lemma write_pid_log:
  "post (\<lambda>_ v. trace v = trace w) (\<lambda>_ v. trace v = trace w) (write_pid p i w)"
  by (rule post_settled [OF settled_write_pid log.write_pid_R])

lemma write_pid_guard: "write_pid p i w = Ok g v \<Longrightarrow> g = \<lparr>guard_path = p\<rparr>"
  by (auto simp: write_pid_def run_iffs)

lemma check_log:
  assumes "unlinked n p T w"
  shows "post (\<lambda>_. unlinked (Suc n) p T) (\<lambda>_. unlinked (Suc n) p T)
     (if present then
          and_then (read_pid p w) (\<lambda>found w.
            case found of
              Some pid \<Rightarrow>
                and_then (is_process_alive L pid w) (\<lambda>alive w.
                  if alive then Err (DaemonAlreadyRunning (Some pid) None) w
                  else remove_if_exists p w)
            | None \<Rightarrow> remove_if_exists p w)
        else Ok () w)"
proof (cases present)
  case True
  note keep = unlinked_same [OF assms, where n = "Suc n"]
  have rm: "post (\<lambda>_. unlinked (Suc n) p T) (\<lambda>_. unlinked (Suc n) p T) (remove_if_exists p v)"
    if "trace v = trace w" for v
    by (rule remove_if_exists_log) (simp add: unlinked_same [OF assms that])
  have alive: "post (\<lambda>_. unlinked (Suc n) p T) (\<lambda>_. unlinked (Suc n) p T)
      (and_then (is_process_alive L q v) (\<lambda>alive w.
                if alive then Err (DaemonAlreadyRunning (Some q) None) w
                else remove_if_exists p w))" if "trace v = trace w" for q v
    by (rule post_seq [OF is_process_alive_log]) (auto simp: that intro: rm keep)
  from True show ?thesis
    by (simp only: if_True, intro post_seq [OF read_pid_log])
      (auto intro: rm alive keep split: option.split)
qed (simp add: unlinked_same [OF assms])

lemma created_after_write:
  assumes "unlinked j p T v" "trace u = trace v @ [ACreate p]" "j \<le> n"
  shows "post (\<lambda>g v. g = \<lparr>guard_path = p\<rparr> \<and> created n p T v)
              (\<lambda>_ v. unlinked n p T v \<or> created n p T v) (write_pid p i u)"
proof -
  have "created n p T t" if "trace t = trace u" for t
    using unlinked_created [OF assms] that by (rule created_same)
  then show ?thesis
    using write_pid_log [of u p i] write_pid_guard [of p i u]
    by (cases "write_pid p i u") auto
qed

lemma claim_attempts_log:
  "unlinked j p T w \<Longrightarrow>
   post (\<lambda>g v. g = \<lparr>guard_path = p\<rparr> \<and> created (j + n) p T v)
        (\<lambda>_ v. unlinked (j + n) p T v \<or> created (j + n) p T v) (claim_attempts n L p w)"
proof (induction n arbitrary: j w)
  case 0
  then show ?case
    unfolding claim_attempts.simps
    by (intro post_seq [OF read_pid_log]) (simp_all add: unlinked_same)
next
  case (Suc n)
  let ?Q = "\<lambda>g v. g = \<lparr>guard_path = p\<rparr> \<and> created (Suc j + n) p T v"
  let ?E = "\<lambda>_ v. unlinked (Suc j + n) p T v \<or> created (Suc j + n) p T v"
  have err: "?E e v" if "unlinked (Suc j) p T v" for e v
    using unlinked_same [OF that] by simp
  have next_try: "post ?Q ?E
      (case create_new p v of
         Ok ino w \<Rightarrow> write_pid p ino w
       | Err err w \<Rightarrow>
           if io_kind err = AlreadyExists then claim_attempts n L p w else Err (Io err) w
       | Panic w \<Rightarrow> Panic w
       | Hang \<Rightarrow> Hang)" if v: "unlinked (Suc j) p T v" for v
  proof (rule post_match [OF create_new_log])
    fix e and u :: world assume "trace u = trace v"
    with v have u: "unlinked (Suc j) p T u" by (rule unlinked_same) simp
    from Suc.IH [OF u] err [OF u]
    show "post ?Q ?E (if io_kind e = AlreadyExists then claim_attempts n L p u else Err (Io e) u)"
      by simp
  qed (rule created_after_write [OF v], simp_all)
  have "post ?Q ?E (claim_attempts (Suc n) L p w)"
    unfolding claim_attempts.simps
  proof (intro post_seq [OF path_exists_log])
    fix u :: world assume "trace u = trace w"
    with Suc.prems have "unlinked j p T u" by (rule unlinked_same) simp
    then show "post ?Q ?E (and_then
       (if present then
          and_then (read_pid p u) (\<lambda>found w.
            case found of
              None \<Rightarrow> remove_if_exists p w
            | Some pid \<Rightarrow>
                and_then (is_process_alive L pid w) (\<lambda>alive w.
                  if alive then Err (DaemonAlreadyRunning (Some pid) None) w
                  else remove_if_exists p w))
        else Ok () u) (\<lambda>_ w. case create_new p w of
         Ok ino w \<Rightarrow> write_pid p ino w
       | Err err w \<Rightarrow>
           if io_kind err = AlreadyExists then claim_attempts n L p w else Err (Io err) w
       | Panic w \<Rightarrow> Panic w
       | Hang \<Rightarrow> Hang))" for present
      by (rule post_seq [OF check_log]) (rule next_try err, assumption)+
  qed (use unlinked_same [OF Suc.prems] in auto)
  then show ?case by simp
qed

lemma claim_log:
  "post (\<lambda>g v. g = \<lparr>guard_path = p\<rparr> \<and>
               (\<exists>k \<le> 3. trace v = trace w @ replicate k (AUnlink p) @ [ACreate p]))
        (\<lambda>_ v. (\<exists>k \<le> 3. trace v = trace w @ replicate k (AUnlink p)) \<or>
               (\<exists>k \<le> 3. trace v = trace w @ replicate k (AUnlink p) @ [ACreate p]))
        (claim L p w)"
proof -
  have dirs: "post (\<lambda>_ v. trace v = trace w) (\<lambda>_ v. trace v = trace w)
      (case parent p of Some dir \<Rightarrow> map_err Io (create_dir_all dir w) | None \<Rightarrow> Ok () w)"
    using post_settled [OF settled_create_dir_all log.create_dir_all_R, of w]
    by (auto simp: post_map_err split: option.split)
  show ?thesis
    unfolding claim_def
  proof (rule post_seq [OF dirs])
    fix v :: world assume "trace v = trace w"
    then have "unlinked 0 p (trace w) v" by (rule unlinked_0)
    from claim_attempts_log [OF this, of 3 L]
    show "post (\<lambda>g v. g = \<lparr>guard_path = p\<rparr> \<and>
               (\<exists>k \<le> 3. trace v = trace w @ replicate k (AUnlink p) @ [ACreate p]))
        (\<lambda>_ v. (\<exists>k \<le> 3. trace v = trace w @ replicate k (AUnlink p)) \<or>
               (\<exists>k \<le> 3. trace v = trace w @ replicate k (AUnlink p) @ [ACreate p]))
        (claim_attempts 3 L p v)"
      by (simp add: unlinked_def created_def)
  qed (simp add: exI [of _ 0])
qed

section \<open>Properties\<close>

text \<open>C8: \<^verbatim>\<open>PidGuard::claim\<close> implements its contract. When other processes leave the PID path alone, a
  claim on a missing file, a malformed file or a file that names a dead process succeeds and leaves
  the file holding the claimer's PID; a file that names a live process refuses the claim with
  \<^verbatim>\<open>DaemonAlreadyRunning\<close> and is not touched; a file that is not UTF-8 refuses it with the read
  error.\<close>

theorem claim_meets_contract:
  assumes "calm P w" "placed P p w" "plain_entry p w"
    and "\<And>q v. pid_alive L q v = alive q"
  shows "claim_outcome P p w (claim L p w) (claim_decision alive (file_content (fs w p)))"
  using assms by (rule claim_calm)

definition demo_pid_path :: path where "demo_pid_path = [s2b ''tmp'', s2b ''d.pid'']"

definition demo_pid_world :: "bytes \<Rightarrow> world" where
  "demo_pid_world c = base_world [[s2b ''tmp''] \<mapsto> Dir, demo_pid_path \<mapsto> File 3 c]"

lemma demo_pid_placed:
  "placed {demo_pid_path, [s2b ''tmp'']} demo_pid_path (demo_pid_world c)"
  "plain_entry demo_pid_path (demo_pid_world c)"
  "fs (demo_pid_world c) demo_pid_path = Some (File 3 c)"
  by (simp_all add: placed_def plain_entry_def demo_pid_world_def demo_pid_path_def s2b_def)

lemma model_alive: "pid_alive (model_libc alive) q v = (q = 0 \<or> alive q)"
  by (simp add: pid_alive_def model_libc_def EPERM_def)

theorem claim_meets_contract_witness:
  "claim_outcome {demo_pid_path, [s2b ''tmp'']} demo_pid_path (demo_pid_world (s2b ''not-a-pid''))
     (claim (model_libc (\<lambda>_. False)) demo_pid_path (demo_pid_world (s2b ''not-a-pid''))) Replace"
proof -
  have "calm {demo_pid_path, [s2b ''tmp'']} (demo_pid_world (s2b ''not-a-pid''))"
    by (simp add: demo_pid_world_def)
  from claim_meets_contract [OF this demo_pid_placed(1,2) model_alive]
  have "claim_outcome {demo_pid_path, [s2b ''tmp'']} demo_pid_path (demo_pid_world (s2b ''not-a-pid''))
     (claim (model_libc (\<lambda>_. False)) demo_pid_path (demo_pid_world (s2b ''not-a-pid'')))
     (claim_decision (\<lambda>q. q = 0 \<or> False) (Some (s2b ''not-a-pid'')))"
    by (simp only: demo_pid_placed(3) file_content.simps)
  moreover have "claim_decision (\<lambda>q. q = 0 \<or> False) (Some (s2b ''not-a-pid'')) = Replace"
    by (simp add: claim_decision_def s2b_def utf8_valid_ascii trim_def trim_start.simps
        trim_end.simps leading_ws_def trailing_ws_def ws_chars_def parse_u32_def digit_val_def)
  ultimately show ?thesis by simp
qed

text \<open>Whatever other processes do and whichever system calls fail, \<^verbatim>\<open>PidGuard::claim\<close> returns, and
  it succeeds only by having created the file itself, after at most three removals: its effects on
  the file system are removals of the PID path followed, on success, by exactly one exclusive
  creation of it. A failed claim has made at most that one creation (when writing the PID
  failed).\<close>

theorem claim_effects:
  "post (\<lambda>g v. g = \<lparr>guard_path = p\<rparr> \<and>
               (\<exists>k \<le> 3. trace v = trace w @ replicate k (AUnlink p) @ [ACreate p]))
        (\<lambda>_ v. (\<exists>k \<le> 3. trace v = trace w @ replicate k (AUnlink p)) \<or>
               (\<exists>k \<le> 3. trace v = trace w @ replicate k (AUnlink p) @ [ACreate p]))
        (claim L p w)"
  by (rule claim_log)

text \<open>The PID file round trip: after a successful claim nobody disturbs, \<^verbatim>\<open>read_pid\<close> on the path
  gives the claimer's own PID, and dropping the guard removes the file.\<close>

theorem claim_read_drop:
  assumes "calm P w" "placed P p w" "plain_entry p w" "\<And>q v. pid_alive L q v = alive q"
    and "claim L p w = Ok g v"
  shows "(\<exists>u. read_pid p v = Ok (Some (pid_self w)) u) \<and> fs (drop_guard g v) p = None"
proof -
  have g: "g = \<lparr>guard_path = p\<rparr>" and own: "owns P p w v"
    using claim_calm [OF assms(1-4)] assms(5)
    by (auto simp: claim_outcome_def split: claim_verdict.splits)
  have p: "p \<in> P" using assms(2) by (simp add: placed_def)
  from own have v: "calm P v" "fs v p = Some (File (next_ino w) (pid_line (pid_self w)))"
    by (simp_all add: owns_def)
  from read_pid_calm [OF v(1) p v(2)]
  have "\<exists>u. read_pid p v = Ok (Some (pid_self w)) u" by (auto simp: parse_pid_line)
  moreover have "fs (drop_guard g v) p = None"
    using remove_file_calm [OF v(1) p v(2)] by (auto simp: drop_guard_def g)
  ultimately show ?thesis by simp
qed

text \<open>C22: Ownership is exclusive in sequence: once a process that stays alive has claimed the path,
  every later claim by another process is refused with that process's PID and leaves the file
  alone.\<close>

theorem claim_excludes_second:
  assumes "calm P w" "placed P p w" "plain_entry p w" "\<And>q v. pid_alive L q v = alive q"
    and "claim L p w = Ok g v" "alive (pid_self w)"
  shows "\<exists>u. claim L p (v\<lparr>pid_self := other\<rparr>) = Err (DaemonAlreadyRunning (Some (pid_self w)) None) u \<and>
             fs u p = fs v p \<and> trace u = trace v"
proof -
  let ?v = "v\<lparr>pid_self := other\<rparr>"
  have own: "owns P p w v"
    using claim_calm [OF assms(1-4)] assms(5)
    by (auto simp: claim_outcome_def split: claim_verdict.splits)
  have "butlast p \<noteq> p" using assms(2) by (metis append_butlast_last_id not_Cons_self2 placed_def self_append_conv)
  with own assms(2) have pl: "calm P ?v" "placed P p ?v" "p \<in> P"
    by (auto simp: owns_def placed_def calm_def)
  have fsv: "fs ?v p = Some (File (next_ino w) (pid_line (pid_self w)))"
    using own by (simp add: owns_def)
  then have "plain_entry p ?v" by (simp add: plain_entry_def)
  from claim_calm [OF pl(1,2) this assms(4)] fsv assms(6) pl(3) show ?thesis
    by (auto simp: claim_decision_def parse_pid_line claim_outcome_def same_def)
qed


section \<open>Witnesses\<close>

abbreviation demo_paths :: "path set" where
  "demo_paths \<equiv> {demo_pid_path, [s2b ''tmp'']}"

lemma demo_claim_ok:
  assumes "alive 99 = False"
  shows "\<exists>g v. claim (model_libc alive) demo_pid_path (demo_pid_world (pid_line 99)) = Ok g v"
proof -
  have "calm demo_paths (demo_pid_world (pid_line 99))" by (simp add: demo_pid_world_def)
  from claim_calm [OF this demo_pid_placed(1,2) model_alive, of alive] assms show ?thesis
    by (auto simp: demo_pid_placed(3) claim_decision_def parse_pid_line claim_outcome_def)
qed

theorem claim_read_drop_witness:
  "\<exists>g v u. claim (model_libc (\<lambda>_. False)) demo_pid_path (demo_pid_world (pid_line 99)) = Ok g v \<and>
     read_pid demo_pid_path v = Ok (Some 42) u \<and> fs (drop_guard g v) demo_pid_path = None"
proof -
  obtain g v where c: "claim (model_libc (\<lambda>_. False)) demo_pid_path (demo_pid_world (pid_line 99)) = Ok g v"
    using demo_claim_ok [of "\<lambda>_. False"] by auto
  have "calm demo_paths (demo_pid_world (pid_line 99))" by (simp add: demo_pid_world_def)
  from claim_read_drop [OF this demo_pid_placed(1,2) model_alive c] c show ?thesis
    by (auto simp: demo_pid_world_def)
qed

theorem claim_excludes_second_witness:
  "\<exists>g v u. claim (model_libc (\<lambda>q. q = 42)) demo_pid_path (demo_pid_world (pid_line 99)) = Ok g v \<and>
     claim (model_libc (\<lambda>q. q = 42)) demo_pid_path (v\<lparr>pid_self := 43\<rparr>)
       = Err (DaemonAlreadyRunning (Some 42) None) u"
proof -
  obtain g v where c: "claim (model_libc (\<lambda>q. q = 42)) demo_pid_path (demo_pid_world (pid_line 99)) = Ok g v"
    using demo_claim_ok [of "\<lambda>q. q = 42"] by auto
  have k: "calm demo_paths (demo_pid_world (pid_line 99))" by (simp add: demo_pid_world_def)
  have "42 = (0 :: u32) \<or> 42 = (42 :: u32)" by simp
  with claim_excludes_second [OF k demo_pid_placed(1,2) model_alive c, of 43] c show ?thesis
    by (auto simp: demo_pid_world_def)
qed


end
