(* ===== verification/Socket.thy ===== *)
theory Socket imports Fixtures begin

text \<open>
  \<^verbatim>\<open>src/socket.rs\<close>: connecting, binding the listener (with recovery of a socket file nobody
  listens on) and removing the socket file. The contract of \<open>bind\<close> is \<open>bind_decision\<close> on the
  entry found under the path.
\<close>

section \<open>Operations\<close>

definition connect :: "path \<Rightarrow> world \<Rightarrow> (io_error, stream, world) run" where
  "connect path w = unix_connect path w"

fun is_socket :: "node \<Rightarrow> bool" where
  "is_socket (Sock i l) = True"
| "is_socket _ = False"

definition not_a_socket :: "path \<Rightarrow> io_error" where
  "not_a_socket path =
     \<lparr>io_kind = AlreadyExists,
      io_text = s2b ''socket path exists and is not a socket: '' @ display_path path\<rparr>"

definition clear_stale :: "path \<Rightarrow> world \<Rightarrow> (unit, world) result" where
  "clear_stale path w =
     and_then (map_err Io (symlink_metadata path w)) (\<lambda>metadata w.
     if \<not> is_socket metadata then Err (Io (not_a_socket path)) w
     else case unix_connect path w of
       Ok _ w \<Rightarrow> Err (DaemonAlreadyRunning None (Some path)) w
     | Err err w \<Rightarrow>
         if io_kind err \<in> {ConnectionRefused, ConnectionAborted, NotFound}
         then map_err Io (remove_file path w)
         else Err (Io err) w
     | Panic w \<Rightarrow> Panic w
     | Hang \<Rightarrow> Hang)"

definition bind :: "path \<Rightarrow> world \<Rightarrow> (nat, world) result" where
  "bind path w =
     and_then
       (case parent path of
          Some dir \<Rightarrow> map_err Io (create_dir_all dir w)
        | None \<Rightarrow> Ok () w) (\<lambda>_ w.
     and_then (path_exists path w) (\<lambda>exists w.
     and_then (if exists then clear_stale path w else Ok () w) (\<lambda>_ w.
     and_then (map_err Io (listener_bind path w)) (\<lambda>listener w.
     case set_nonblocking w of
       Ok _ w \<Rightarrow> Ok listener w
     | Err err w \<Rightarrow> Err (Io err) (close_listener path listener w)
     | Panic w \<Rightarrow> Panic (close_listener path listener w)
     | Hang \<Rightarrow> Hang))))"

definition cleanup :: "path \<Rightarrow> world \<Rightarrow> (unit, world) result" where
  "cleanup path w =
     (case remove_file path w of
        Ok _ w \<Rightarrow> Ok () w
      | Err err w \<Rightarrow> if io_kind err = NotFound then Ok () w else Err (Io err) w
      | Panic w \<Rightarrow> Panic w
      | Hang \<Rightarrow> Hang)"

section \<open>What every run of these operations respects\<close>

context env_relation
begin

lemma connect_R: "ends_in (R w) (connect path w)"
  by (simp add: connect_def unix_connect_R)

end

context world_relation
begin

lemma cleanup_R: "ends_in (R w) (cleanup path w)"
  using remove_file_R [of w path] by (auto simp: cleanup_def split: run.split)

lemma clear_stale_R: "ends_in (R w) (clear_stale path w)"
  unfolding clear_stale_def
proof (rule seq_R)
  fix nd w1
  have "ends_in (R w1) (case unix_connect path w1 of
       Ok _ w \<Rightarrow> Err (DaemonAlreadyRunning None (Some path)) w
     | Err err w \<Rightarrow>
         if io_kind err \<in> {ConnectionRefused, ConnectionAborted, NotFound}
         then map_err Io (remove_file path w)
         else Err (Io err) w
     | Panic w \<Rightarrow> Panic w
     | Hang \<Rightarrow> Hang)"
    using unix_connect_R [of w1 path] by (auto intro: weaken_R remove_file_R split: run.split)
  then show "ends_in (R w1) (if \<not> is_socket nd then Err (Io (not_a_socket path)) w1
     else case unix_connect path w1 of
       Ok _ w \<Rightarrow> Err (DaemonAlreadyRunning None (Some path)) w
     | Err err w \<Rightarrow>
         if io_kind err \<in> {ConnectionRefused, ConnectionAborted, NotFound}
         then map_err Io (remove_file path w)
         else Err (Io err) w
     | Panic w \<Rightarrow> Panic w
     | Hang \<Rightarrow> Hang)"
    by (simp add: R_refl)
qed (simp add: symlink_metadata_R)

lemma bind_R: "ends_in (R w) (bind path w)"
proof -
  have last: "ends_in (R v)
     (case set_nonblocking v of
       Ok _ w \<Rightarrow> Ok listener w
     | Err err w \<Rightarrow> Err (Io err) (close_listener path listener w)
     | Panic w \<Rightarrow> Panic (close_listener path listener w)
     | Hang \<Rightarrow> Hang)" for v and listener
    using set_nonblocking_R [of v] by (auto intro: R_trans close_listener_R split: run.split)
  show ?thesis
    unfolding bind_def
    by (intro seq_R path_exists_R last)
      (auto intro: create_dir_all_R clear_stale_R listener_bind_R R_refl split: option.split)
qed

end

section \<open>Contract\<close>

datatype bind_verdict = BindFresh | BindReplace | BindLive | BindNotSocket

fun bind_decision :: "node option \<Rightarrow> bind_verdict" where
  "bind_decision None = BindFresh"
| "bind_decision (Some (Sock i live)) = (if live then BindLive else BindReplace)"
| "bind_decision (Some _) = BindNotSocket"

definition listens :: "path set \<Rightarrow> path \<Rightarrow> world \<Rightarrow> world \<Rightarrow> bool" where
  "listens P p w v \<longleftrightarrow>
     fs v p = Some (Sock (next_ino w) True) \<and> (\<forall>q \<in> P - {p}. fs v q = fs w q) \<and>
     pid_self v = pid_self w \<and> served v = served w \<and> calm P v"

definition bind_outcome ::
  "path set \<Rightarrow> path \<Rightarrow> world \<Rightarrow> (nat, world) result \<Rightarrow> bind_verdict \<Rightarrow> bool" where
  "bind_outcome P p w r verdict =
     (case verdict of
        BindFresh \<Rightarrow> \<exists>v. r = Ok (next_ino w) v \<and> listens P p w v \<and> trace v = trace w @ [ABind p]
      | BindReplace \<Rightarrow>
          \<exists>v. r = Ok (next_ino w) v \<and> listens P p w v \<and> trace v = trace w @ [AUnlink p, ABind p]
      | BindLive \<Rightarrow>
          \<exists>v. r = Err (DaemonAlreadyRunning None (Some p)) v \<and> fs v p = fs w p \<and> trace v = trace w
      | BindNotSocket \<Rightarrow>
          \<exists>v. r = Err (Io (not_a_socket p)) v \<and> fs v p = fs w p \<and> trace v = trace w)"

lemma bind_fresh_calm:
  assumes "calm P w" "placed P p w" "fs w p = None"
  shows "\<exists>v. and_then (map_err Io (listener_bind p w)) (\<lambda>listener w.
           case set_nonblocking w of
             Ok _ w \<Rightarrow> Ok listener w
           | Err err w \<Rightarrow> Err (Io err) (close_listener p listener w)
           | Panic w \<Rightarrow> Panic (close_listener p listener w)
           | Hang \<Rightarrow> Hang) = Ok (next_ino w) v \<and> listens P p w v \<and> trace v = trace w @ [ABind p]"
proof -
  obtain v where v: "listener_bind p w = Ok (next_ino w) (record_action (ABind p)
      (v\<lparr>fs := (fs v)(p := Some (Sock (next_ino w) True)), next_ino := Suc (next_ino w)\<rparr>))"
    "same P w v"
    using listener_bind_calm [OF assms] by auto
  define v1 where "v1 = record_action (ABind p)
      (v\<lparr>fs := (fs v)(p := Some (Sock (next_ino w) True)), next_ino := Suc (next_ino w)\<rparr>)"
  have "calm P v1" using v(2) by (simp add: v1_def)
  from set_nonblocking_calm [OF this] obtain u where
    u: "set_nonblocking v1 = Ok () u" "same P v1 u" by auto
  have "p \<in> P" using assms(2) by (simp add: placed_def)
  with u(2) v(2) have "listens P p w u" "trace u = trace w @ [ABind p]"
    by (auto simp: listens_def same_def v1_def)
  with v(1) u(1) show ?thesis by (auto simp: v1_def)
qed

lemma clear_stale_calm:
  assumes "calm P w" "placed P p w" "fs w p = Some (Sock i False)"
  shows "\<exists>v. clear_stale p w = Ok () v \<and> calm P v \<and> placed P p v \<and> fs v p = None \<and>
             (\<forall>q \<in> P - {p}. fs v q = fs w q) \<and> trace v = trace w @ [AUnlink p] \<and>
             pid_self v = pid_self w \<and> next_ino v = next_ino w \<and> served v = served w"
proof -
  have p: "p \<in> P" using assms(2) by (simp add: placed_def)
  from symlink_metadata_calm [OF assms(1) p assms(3)] obtain v where
    v: "symlink_metadata p w = Ok (Sock i False) v" "same P w v" by auto
  have "calm P v" "fs v p = Some (Sock i False)" using v(2) assms(3) p by (auto simp: same_def)
  from unix_connect_stale_calm [OF this(1) p this(2)] obtain u where
    u: "unix_connect p v = Err (os_error ConnectionRefused) u" "same P v u" by auto
  have wu: "same P w u" using v(2) u(2) by (rule same_trans)
  have "calm P u" "fs u p = Some (Sock i False)" using wu assms(3) p by (auto simp: same_def)
  from remove_file_calm [OF this(1) p this(2)] obtain t where
    t: "remove_file p u = Ok () (record_action (AUnlink p) (t\<lparr>fs := (fs t)(p := None)\<rparr>))" "same P u t"
    by auto
  have wt: "same P w t" using wu t(2) by (rule same_trans)
  have "placed P p (record_action (AUnlink p) (t\<lparr>fs := (fs t)(p := None)\<rparr>))"
    using assms(2) wt by (simp add: placed_upd placed_same)
  with v(1) u(1) t(1) wt show ?thesis by (auto simp: clear_stale_def same_def)
qed

lemma clear_stale_live_calm:
  assumes "calm P w" "p \<in> P" "fs w p = Some (Sock i True)"
  shows "\<exists>v. clear_stale p w = Err (DaemonAlreadyRunning None (Some p)) v \<and> fs v p = fs w p \<and>
             trace v = trace w"
proof -
  from symlink_metadata_calm [OF assms] obtain v where
    v: "symlink_metadata p w = Ok (Sock i True) v" "same P w v" by auto
  have "calm P v" "fs v p = Some (Sock i True)" using v(2) assms by (auto simp: same_def)
  from unix_connect_live_calm [OF this(1) assms(2) this(2)] obtain s u where
    u: "unix_connect p v = Ok s (u\<lparr>dials := tl (dials v)\<rparr>)" "same P v u" by auto
  with v assms(2) show ?thesis by (auto simp: clear_stale_def same_def)
qed

lemma clear_stale_other_calm:
  assumes "calm P w" "p \<in> P" "fs w p = Some nd" "\<not> is_socket nd"
  shows "\<exists>v. clear_stale p w = Err (Io (not_a_socket p)) v \<and> fs v p = fs w p \<and> trace v = trace w"
  using symlink_metadata_calm [OF assms(1-3)] assms by (auto simp: clear_stale_def same_def)

lemma bind_calm:
  assumes "calm P w" "placed P p w" "\<forall>q. fs w p \<noteq> Some (Link q)"
  shows "bind_outcome P p w (bind p w) (bind_decision (fs w p))"
proof -
  have p: "p \<in> P" "p \<noteq> []" using assms(2) by (auto simp: placed_def)
  obtain v where v: "create_dir_all (butlast p) w = Ok () v" "same P w v"
    using parent_dirs_calm [OF assms(1,2)] by auto
  have "calm P v" "\<forall>q. fs v p \<noteq> Some (Link q)" using v(2) assms(3) p by (auto simp: same_def)
  from path_exists_calm [OF this(1) p(1) this(2) p(2)] obtain u where
    u: "(path_exists p v :: (bool, world) result) = Ok (fs v p \<noteq> None) u" "same P v u" by auto
  have wu: "same P w u" using v(2) u(2) by (rule same_trans)
  have at: "calm P u" "placed P p u" "fs u p = fs w p" "fs v p = fs w p"
    using wu v(2) assms(2) p by (auto simp: same_fs placed_same)
  let ?rest = "\<lambda>w. and_then (map_err Io (listener_bind p w)) (\<lambda>listener w.
           case set_nonblocking w of
             Ok _ w \<Rightarrow> Ok listener w
           | Err err w \<Rightarrow> Err (Io err) (close_listener p listener w)
           | Panic w \<Rightarrow> Panic (close_listener p listener w)
           | Hang \<Rightarrow> Hang)"
  have b: "bind p w = and_then (if fs w p \<noteq> None then clear_stale p u else Ok () u) (\<lambda>_. ?rest)"
    using v(1) u(1) at p by (simp add: bind_def parent_def)
  show ?thesis
  proof (cases "fs w p")
    case None
    with bind_fresh_calm [OF at(1,2)] at(3) obtain x where
      "?rest u = Ok (next_ino u) x" "listens P p u x" "trace x = trace u @ [ABind p]" by auto
    with None b wu show ?thesis by (auto simp: bind_outcome_def listens_def same_def)
  next
    case (Some nd)
    show ?thesis
    proof (cases nd)
      case (Sock i live)
      show ?thesis
      proof (cases live)
        case True
        with Some Sock clear_stale_live_calm [OF at(1) p(1), of i] at(3) b wu show ?thesis
          by (auto simp: bind_outcome_def same_def)
      next
        case False
        with Some Sock clear_stale_calm [OF at(1,2), of i] at(3) obtain t where
          t: "clear_stale p u = Ok () t" "calm P t" "placed P p t" "fs t p = None"
          "\<forall>q \<in> P - {p}. fs t q = fs u q" "trace t = trace u @ [AUnlink p]"
          "pid_self t = pid_self u" "next_ino t = next_ino u" "served t = served u"
          by auto
        from bind_fresh_calm [OF t(2-4)] obtain x where
          "?rest t = Ok (next_ino t) x" "listens P p t x" "trace x = trace t @ [ABind p]" by auto
        with t wu b Some Sock False show ?thesis
          by (auto simp: bind_outcome_def listens_def same_def)
      qed
    qed (use Some assms(3) clear_stale_other_calm [OF at(1) p(1), of nd] at(3) b wu in
      \<open>auto simp: bind_outcome_def same_def\<close>)
  qed
qed

section \<open>What binding does to the file system, whatever others do\<close>

abbreviation cleared :: "path \<Rightarrow> world \<Rightarrow> world \<Rightarrow> bool" where
  "cleared p w v \<equiv> trace v = trace w \<or> trace v = trace w @ [AUnlink p]"

lemma unix_connect_log:
  "post (\<lambda>_ v. trace v = trace w) (\<lambda>_ v. trace v = trace w) (unix_connect p w)"
  by (rule post_settled [OF settled_calls(10) log.unix_connect_R])

lemma clear_stale_log:
  "post (\<lambda>_. cleared p w) (\<lambda>_. cleared p w) (clear_stale p w)"
proof -
  have probe: "post (\<lambda>_. cleared p w) (\<lambda>_. cleared p w)
      (case unix_connect p v of
       Ok _ w \<Rightarrow> Err (DaemonAlreadyRunning None (Some p)) w
     | Err err w \<Rightarrow>
         if io_kind err \<in> {ConnectionRefused, ConnectionAborted, NotFound}
         then map_err Io (remove_file p w)
         else Err (Io err) w
     | Panic w \<Rightarrow> Panic w
     | Hang \<Rightarrow> Hang)" if "trace v = trace w" for v
  proof (rule post_match [OF unix_connect_log])
    fix e and u :: world assume "trace u = trace v"
    with that remove_file_log [of u p]
    show "post (\<lambda>_. cleared p w) (\<lambda>_. cleared p w)
        (if io_kind e \<in> {ConnectionRefused, ConnectionAborted, NotFound}
         then map_err Io (remove_file p u) else Err (Io e) u)"
      by (cases "remove_file p u") auto
  qed (simp add: that)
  have meta: "post (\<lambda>_ v. trace v = trace w) (\<lambda>_ v. trace v = trace w) (map_err Io (symlink_metadata p w))"
    using post_settled [OF settled_calls(9) log.symlink_metadata_R, of w p]
    by (simp add: post_map_err)
  show ?thesis
    unfolding clear_stale_def by (rule post_seq [OF meta]) (auto intro: probe)
qed

lemma listen_log:
  assumes "cleared p w v"
  shows "post (\<lambda>_ u. trace u = trace v @ [ABind p])
     (\<lambda>_ u. trace u = trace v \<or> trace u = trace v @ [ABind p, AClose p])
     (and_then (map_err Io (listener_bind p v)) (\<lambda>listener w.
     case set_nonblocking w of
       Ok _ w \<Rightarrow> Ok listener w
     | Err err w \<Rightarrow> Err (Io err) (close_listener p listener w)
     | Panic w \<Rightarrow> Panic (close_listener p listener w)
     | Hang \<Rightarrow> Hang))"
proof -
  have close: "trace (close_listener p l u) = trace u @ [AClose p]" for l u
    by (auto simp: close_listener_def split: option.split node.split bool.split)
  have nb: "post (\<lambda>_ u. trace u = trace x) (\<lambda>_ u. trace u = trace x) (set_nonblocking x)" for x
    by (rule post_settled [OF settled_calls(12) log.set_nonblocking_R])
  have "post (\<lambda>_ u. trace u = trace v @ [ABind p]) (\<lambda>_ u. trace u = trace v)
     (map_err Io (listener_bind p v))"
    using listener_bind_log [of v p] by (simp add: post_map_err)
  then show ?thesis
    by (rule post_seq) (auto intro!: post_match [OF nb] simp: close)
qed

lemma bind_log:
  "post (\<lambda>_ v. trace v = trace w @ [ABind p] \<or> trace v = trace w @ [AUnlink p, ABind p])
        (\<lambda>_ v. trace v = trace w \<or> trace v = trace w @ [AUnlink p] \<or>
               trace v = trace w @ [ABind p, AClose p] \<or>
               trace v = trace w @ [AUnlink p, ABind p, AClose p])
        (bind p w)"
proof -
  have dirs: "post (\<lambda>_ v. trace v = trace w) (\<lambda>_ v. trace v = trace w)
      (case parent p of Some dir \<Rightarrow> map_err Io (create_dir_all dir w) | None \<Rightarrow> Ok () w)"
    using post_settled [OF settled_create_dir_all log.create_dir_all_R, of w]
    by (auto simp: post_map_err split: option.split)
  have exists: "post (\<lambda>_ u. trace u = trace x) (\<lambda>_ u. trace u = trace x)
      (path_exists p x :: (bool, world) result)" for x
    by (rule post_settled [OF settled_calls(1) log.path_exists_R])
  have clear: "post (\<lambda>_. cleared p w) (\<lambda>_. cleared p w) (if b then clear_stale p u else Ok () u)"
    if "trace u = trace w" for b u
    using clear_stale_log [where w = u and p = p] that by auto
  show ?thesis
    unfolding bind_def
    by (intro post_seq [OF dirs] post_seq [OF exists] post_seq [OF clear] post_mono [OF listen_log])
      auto
qed

section \<open>Properties\<close>

text \<open>C9: \<^verbatim>\<open>socket::bind\<close> implements its contract. When other processes leave the socket path alone, a
  free path is bound; a socket file nobody listens on is removed and the path is bound; a socket
  with a live listener refuses with \<^verbatim>\<open>DaemonAlreadyRunning\<close>; anything that is not a socket
  refuses with \<^verbatim>\<open>AlreadyExists\<close>; in both refusals the file is left as it was.\<close>

theorem bind_meets_contract:
  assumes "calm P w" "placed P p w" "\<forall>q. fs w p \<noteq> Some (Link q)"
  shows "bind_outcome P p w (bind p w) (bind_decision (fs w p))"
  using assms by (rule bind_calm)

text \<open>Whatever other processes do and whichever calls fail, \<^verbatim>\<open>socket::bind\<close> returns; it removes
  the path at most once and binds it at most once, and when it reports an error after binding it has
  closed the listener again, so no listener outlives a failed bind.\<close>

theorem bind_effects:
  "post (\<lambda>_ v. trace v = trace w @ [ABind p] \<or> trace v = trace w @ [AUnlink p, ABind p])
        (\<lambda>_ v. trace v = trace w \<or> trace v = trace w @ [AUnlink p] \<or>
               trace v = trace w @ [ABind p, AClose p] \<or>
               trace v = trace w @ [AUnlink p, ABind p, AClose p])
        (bind p w)"
  by (rule bind_log)

text \<open>The socket life cycle: a path that was bound, closed and cleaned up is free again, and
  cleaning up a second time still succeeds.\<close>

theorem bind_close_cleanup:
  assumes "calm P w" "placed P p w" "\<forall>q. fs w p \<noteq> Some (Link q)" "bind p w = Ok listener v"
  shows "\<exists>u t. cleanup p (close_listener p listener v) = Ok () u \<and> fs u p = None \<and>
               cleanup p u = Ok () t \<and> fs t p = None"
proof -
  have l: "listener = next_ino w" "listens P p w v"
    using bind_calm [OF assms(1-3)] assms(4)
    by (auto simp: bind_outcome_def split: bind_verdict.splits)
  let ?c = "close_listener p listener v"
  have p: "p \<in> P" using assms(2) by (simp add: placed_def)
  have c: "calm P ?c" "fs ?c p = Some (Sock (next_ino w) False)"
    using l by (auto simp: listens_def close_listener_def)
  from remove_file_calm [OF c(1) p c(2)] obtain x where
    x: "remove_file p ?c = Ok () (record_action (AUnlink p) (x\<lparr>fs := (fs x)(p := None)\<rparr>))" "same P ?c x"
    by auto
  define u where "u = record_action (AUnlink p) (x\<lparr>fs := (fs x)(p := None)\<rparr>)"
  have u: "calm P u" "fs u p = None" using x(2) by (simp_all add: u_def)
  from remove_file_missing_calm [OF u(1) p u(2)] obtain t where
    "remove_file p u = Err (os_error NotFound) t" "same P u t" by auto
  with x(1) u p show ?thesis
    by (intro exI [of _ u] exI [of _ t]) (auto simp: cleanup_def u_def [symmetric] same_fs)
qed

section \<open>Witnesses\<close>

definition demo_sock_path :: path where "demo_sock_path = [s2b ''tmp'', s2b ''d.sock'']"

definition demo_sock_world :: "node \<Rightarrow> world" where
  "demo_sock_world nd = base_world [[s2b ''tmp''] \<mapsto> Dir, demo_sock_path \<mapsto> nd]"

abbreviation demo_sock_paths :: "path set" where
  "demo_sock_paths \<equiv> {demo_sock_path, [s2b ''tmp'']}"

lemma demo_sock:
  "calm demo_sock_paths (demo_sock_world nd)"
  "placed demo_sock_paths demo_sock_path (demo_sock_world nd)"
  "fs (demo_sock_world nd) demo_sock_path = Some nd"
  by (simp_all add: placed_def demo_sock_world_def demo_sock_path_def s2b_def)

theorem bind_meets_contract_witness:
  "bind_outcome demo_sock_paths demo_sock_path (demo_sock_world (Sock 3 False))
     (bind demo_sock_path (demo_sock_world (Sock 3 False))) BindReplace"
  using bind_meets_contract [OF demo_sock(1,2), of "Sock 3 False"] by (simp add: demo_sock(3))

theorem bind_close_cleanup_witness:
  "\<exists>v u. bind demo_sock_path (demo_sock_world (Sock 3 False)) = Ok 7 v \<and>
     cleanup demo_sock_path (close_listener demo_sock_path 7 v) = Ok () u \<and>
     fs u demo_sock_path = None"
proof -
  have nl: "\<forall>q. fs (demo_sock_world (Sock 3 False)) demo_sock_path \<noteq> Some (Link q)"
    by (simp add: demo_sock(3))
  have "next_ino (demo_sock_world (Sock 3 False)) = 7" by (simp add: demo_sock_world_def)
  with bind_calm [OF demo_sock(1,2) nl] obtain v where
    v: "bind demo_sock_path (demo_sock_world (Sock 3 False)) = Ok 7 v"
    by (auto simp: demo_sock(3) bind_outcome_def)
  from bind_close_cleanup [OF demo_sock(1,2) nl v] v show ?thesis by blast
qed

end
