(* ===== verification/Config.thy ===== *)
theory Config imports Frame begin

text \<open>
  \<^verbatim>\<open>src/config.rs\<close>: the daemon's configuration with its defaults and the client's auto-start
  configuration with its builder methods. Rust strings and \<^verbatim>\<open>OsString\<close>s are byte strings.
\<close>

record daemon_config =
  socket_path :: path
  pid_file :: "path option"
  idle_timeout :: duration
  poll_interval :: duration
  max_payload_len :: nat

definition default_daemon_config :: daemon_config where
  "default_daemon_config =
     \<lparr>socket_path = [s2b ''tmp'', s2b ''sockd.sock''],
      pid_file = None,
      idle_timeout = from_secs 300,
      poll_interval = from_millis 250,
      max_payload_len = DEFAULT_MAX_PAYLOAD_LEN\<rparr>"

record auto_start =
  program :: path
  args :: "rstring list"
  ready_timeout :: duration
  initial_backoff :: duration
  max_backoff :: duration

definition auto_start_new :: "path \<Rightarrow> auto_start" where
  "auto_start_new prog =
     \<lparr>program = prog,
      args = [],
      ready_timeout = from_secs 2,
      initial_backoff = from_millis 50,
      max_backoff = from_millis 250\<rparr>"

definition with_arg :: "auto_start \<Rightarrow> rstring \<Rightarrow> auto_start" where
  "with_arg a x = a\<lparr>args := args a @ [x]\<rparr>"

definition with_args :: "auto_start \<Rightarrow> rstring list \<Rightarrow> auto_start" where
  "with_args a xs = a\<lparr>args := args a @ xs\<rparr>"

definition with_ready_timeout :: "auto_start \<Rightarrow> duration \<Rightarrow> auto_start" where
  "with_ready_timeout a d = a\<lparr>ready_timeout := d\<rparr>"

definition with_initial_backoff :: "auto_start \<Rightarrow> duration \<Rightarrow> auto_start" where
  "with_initial_backoff a d = a\<lparr>initial_backoff := d\<rparr>"

definition with_max_backoff :: "auto_start \<Rightarrow> duration \<Rightarrow> auto_start" where
  "with_max_backoff a d = a\<lparr>max_backoff := d\<rparr>"

lemma with_args_fold: "with_args a xs = fold (\<lambda>x b. with_arg b x) xs a"
proof (induction xs arbitrary: a)
  case Nil
  show ?case by (simp add: with_args_def)
next
  case (Cons x xs)
  from Cons.IH [of "with_arg a x"] show ?case by (simp add: with_args_def with_arg_def)
qed

end
