(* ===== verification/Daemon.thy ===== *)
theory Daemon imports Pidfile Socket Config begin

text \<open>
  \<^verbatim>\<open>src/daemon.rs\<close>: the builder, the handling of one connection, the event loop and the run of a
  daemon from start-up to clean-up.

  The application's callbacks are functions on the application state \<open>'s\<close>: what a closure captures
  and mutates is part of \<open>'s\<close>. The state of the loop is the application state together with the
  world. A connection is handled on its stream; closing the stream afterwards records it, with
  everything written to it, in \<open>served\<close>.
\<close>

section \<open>Data\<close>

type_synonym 'a callback_result = "box_error + 'a"

text \<open>The callbacks. \<^verbatim>\<open>on_start\<close> is called once, so it is what that call returns.\<close>

type_synonym 's start_callback = "'s callback_result"
type_synonym 's request_callback = "'s \<Rightarrow> bytes \<Rightarrow> bytes callback_result \<times> 's"
type_synonym 's stop_callback = "'s \<Rightarrow> unit callback_result"

datatype connection_outcome = Continue | StopDaemon

record 's daemon =
  config :: daemon_config
  on_start :: "'s start_callback"
  on_request :: "'s request_callback"
  on_stop :: "'s stop_callback"

record 's daemon_builder =
  b_config :: daemon_config
  b_on_start :: "'s start_callback"
  b_on_request :: "'s request_callback option"
  b_on_stop :: "'s stop_callback"

section \<open>Builder\<close>

definition builder :: "unit daemon_builder" where
  "builder =
     \<lparr>b_config = default_daemon_config,
      b_on_start = Inr (),
      b_on_request = None,
      b_on_stop = (\<lambda>_. Inr ())\<rparr>"

definition builder_on_start :: "'s start_callback \<Rightarrow> unit daemon_builder \<Rightarrow> 's daemon_builder" where
  "builder_on_start start b =
     \<lparr>b_config = b_config b,
      b_on_start = start,
      b_on_request = None,
      b_on_stop = (\<lambda>_. Inr ())\<rparr>"

definition builder_socket :: "path \<Rightarrow> 's daemon_builder \<Rightarrow> 's daemon_builder" where
  "builder_socket p b = b\<lparr>b_config := (b_config b)\<lparr>socket_path := p\<rparr>\<rparr>"

definition builder_pid_file :: "path \<Rightarrow> 's daemon_builder \<Rightarrow> 's daemon_builder" where
  "builder_pid_file p b = b\<lparr>b_config := (b_config b)\<lparr>pid_file := Some p\<rparr>\<rparr>"

definition builder_idle_timeout :: "duration \<Rightarrow> 's daemon_builder \<Rightarrow> 's daemon_builder" where
  "builder_idle_timeout d b = b\<lparr>b_config := (b_config b)\<lparr>idle_timeout := d\<rparr>\<rparr>"

definition builder_poll_interval :: "duration \<Rightarrow> 's daemon_builder \<Rightarrow> 's daemon_builder" where
  "builder_poll_interval d b = b\<lparr>b_config := (b_config b)\<lparr>poll_interval := d\<rparr>\<rparr>"

definition builder_max_payload_len :: "nat \<Rightarrow> 's daemon_builder \<Rightarrow> 's daemon_builder" where
  "builder_max_payload_len n b = b\<lparr>b_config := (b_config b)\<lparr>max_payload_len := n\<rparr>\<rparr>"

definition builder_on_request ::
  "'s request_callback \<Rightarrow> 's daemon_builder \<Rightarrow> 's daemon_builder" where
  "builder_on_request f b = b\<lparr>b_on_request := Some f\<rparr>"

definition builder_on_stop ::
  "'s stop_callback \<Rightarrow> 's daemon_builder \<Rightarrow> 's daemon_builder" where
  "builder_on_stop f b = b\<lparr>b_on_stop := f\<rparr>"

definition build :: "'s daemon_builder \<Rightarrow> error + 's daemon" where
  "build b =
     (case b_on_request b of
        None \<Rightarrow> Inl (MissingCallback (s2b ''on_request''))
      | Some f \<Rightarrow>
        Inr \<lparr>config = b_config b, on_start = b_on_start b, on_request = f, on_stop = b_on_stop b\<rparr>)"

section \<open>One connection\<close>

fun kind_debug :: "frame_kind \<Rightarrow> rstring" where
  "kind_debug KRequest = s2b ''Request''"
| "kind_debug KResponse = s2b ''Response''"
| "kind_debug KPing = s2b ''Ping''"
| "kind_debug KPong = s2b ''Pong''"
| "kind_debug KError = s2b ''Error''"
| "kind_debug KShutdown = s2b ''Shutdown''"
| "kind_debug KShutdownAck = s2b ''ShutdownAck''"

definition process_connection ::
  "'s daemon \<Rightarrow> stream \<Rightarrow> 's \<Rightarrow> (connection_outcome, 's \<times> stream) result" where
  "process_connection d stream state =
     and_then (map_state (Pair state) (read_frame (max_payload_len (config d)) stream))
       (\<lambda>frame (state, stream).
     case kind frame of
       KPing \<Rightarrow>
         and_then (map_state (Pair state) (write_frame KPong [] stream)) (\<lambda>_. Ok Continue)
     | KShutdown \<Rightarrow>
         and_then (map_state (Pair state) (write_frame KShutdownAck [] stream)) (\<lambda>_. Ok StopDaemon)
     | KRequest \<Rightarrow>
         (case on_request d state (payload frame) of
            (Inr response, state) \<Rightarrow>
              and_then (map_state (Pair state) (write_frame KResponse response stream))
                (\<lambda>_. Ok Continue)
          | (Inl err, state) \<Rightarrow>
              and_then (map_state (Pair state) (write_frame KError err stream))
                (\<lambda>_. Ok Continue))
     | other \<Rightarrow>
         and_then
           (map_state (Pair state)
             (write_frame KError (s2b ''unexpected frame kind: '' @ kind_debug other) stream))
           (\<lambda>_. Ok Continue))"

section \<open>Event loop\<close>

definition I32_MAX :: nat where "I32_MAX = 2147483647"

definition poll_timeout_ms :: "duration \<Rightarrow> i32" where
  "poll_timeout_ms timeout = of_nat (min (timeout div 1000000) I32_MAX)"

definition poll_listener :: "libc \<Rightarrow> duration \<Rightarrow> world \<Rightarrow> (bool, world) result" where
  "poll_listener L timeout w =
     (let (ready, revents, err, w) = poll1 L (poll_timeout_ms timeout) w in
      if sint ready < 0 then
        (if io_kind err = Interrupted then Ok False w else Err (Io err) w)
      else Ok (0 < sint ready \<and> and revents POLLIN \<noteq> 0) w)"

text \<open>The inner loop: accept until the listener would block. Its result is what ended it and the
  time of the last connection.\<close>

partial_function (option) accept_loop ::
  "'s daemon \<Rightarrow> nat \<Rightarrow> 's \<Rightarrow> world \<Rightarrow> (connection_outcome \<times> nat, 's \<times> world) result option" where
  "accept_loop d last_activity state w =
     (case accept w of
        Ok stream w \<Rightarrow>
          (case set_nonblocking w of
             Ok _ w \<Rightarrow>
               (let w = snd (enter w) in
                case process_connection d stream state of
                  Ok outcome (state, stream) \<Rightarrow>
                    (case outcome of
                       Continue \<Rightarrow> accept_loop d (clock w) state (close_stream stream w)
                     | StopDaemon \<Rightarrow> Some (Ok (StopDaemon, clock w) (state, close_stream stream w)))
                | Err err (state, stream) \<Rightarrow> Some (Err err (state, close_stream stream w))
                | Panic (state, stream) \<Rightarrow> Some (Panic (state, close_stream stream w))
                | Hang \<Rightarrow> None)
           | Err err w \<Rightarrow> Some (Err (Io err) (state, close_stream stream w))
           | Panic w \<Rightarrow> Some (Panic (state, close_stream stream w))
           | Hang \<Rightarrow> None)
      | Err err w \<Rightarrow>
          if io_kind err = WouldBlock then Some (Ok (Continue, last_activity) (state, w))
          else Some (Err (Io err) (state, w))
      | Panic w \<Rightarrow> Some (Panic (state, w))
      | Hang \<Rightarrow> None)"

partial_function (option) event_loop ::
  "'s daemon \<Rightarrow> libc \<Rightarrow> nat \<Rightarrow> 's \<Rightarrow> world \<Rightarrow> (unit, 's \<times> world) result option" where
  "event_loop d L last_activity state w =
     (if signalled w then Some (Ok () (state, w))
      else
        let w = snd (enter w);
            idle_remaining = idle_timeout (config d) - (clock w - last_activity)
        in
        if idle_remaining = 0 then Some (Ok () (state, w))
        else
          case poll_listener L (min idle_remaining (poll_interval (config d))) w of
            Ok ready w \<Rightarrow>
              if \<not> ready then event_loop d L last_activity state w
              else
                (case accept_loop d last_activity state w of
                   None \<Rightarrow> None
                 | Some r \<Rightarrow>
                   (case r of
                      Ok (outcome, last_activity) (state, w) \<Rightarrow>
                        (case outcome of
                           Continue \<Rightarrow> event_loop d L last_activity state w
                         | StopDaemon \<Rightarrow> Some (Ok () (state, w)))
                    | Err err sw \<Rightarrow> Some (Err err sw)
                    | Panic sw \<Rightarrow> Some (Panic sw)
                    | Hang \<Rightarrow> None))
          | Err err w \<Rightarrow> Some (Err err (state, w))
          | Panic w \<Rightarrow> Some (Panic (state, w))
          | Hang \<Rightarrow> None)"

definition run_event_loop ::
  "'s daemon \<Rightarrow> libc \<Rightarrow> 's \<Rightarrow> world \<Rightarrow> (unit, 's \<times> world) result" where
  "run_event_loop d L state w =
     (let w = snd (enter w) in unhang (event_loop d L (clock w) state w))"

section \<open>Running the daemon\<close>

definition register_flag :: "libc \<Rightarrow> int \<Rightarrow> world \<Rightarrow> (unit, world) result" where
  "register_flag L sig w =
     map_err Io (syscall (\<lambda>w. lift_result (register_signal L sig w) w) w)"

definition install_shutdown_flag :: "libc \<Rightarrow> world \<Rightarrow> (unit, world) result" where
  "install_shutdown_flag L w =
     (let w = w\<lparr>signalled := False\<rparr> in
      and_then (register_flag L SIGINT w) (\<lambda>_ w. register_flag L SIGTERM w))"

definition claim_pid_file :: "libc \<Rightarrow> path option \<Rightarrow> world \<Rightarrow> (pid_guard option, world) result" where
  "claim_pid_file L configured w =
     (case configured of
        Some path \<Rightarrow> and_then (claim L path w) (\<lambda>g. Ok (Some g))
      | None \<Rightarrow> Ok None w)"

definition release :: "pid_guard option \<Rightarrow> world \<Rightarrow> world" where
  "release guard w = (case guard of None \<Rightarrow> w | Some g \<Rightarrow> drop_guard g w)"

text \<open>Calling \<open>on_stop\<close>, and the three results of the shutdown examined in the source's order.\<close>

definition call_on_stop :: "'s daemon \<Rightarrow> 's \<Rightarrow> world \<Rightarrow> (error + unit) \<times> world" where
  "call_on_stop d state w =
     (case on_stop d state of Inl e \<Rightarrow> Inl (Shutdown e) | Inr u \<Rightarrow> Inr u, record_action AStop w)"

fun in_order :: "(error + unit) list \<Rightarrow> error + unit" where
  "in_order [] = Inr ()"
| "in_order (Inl e # rs) = Inl e"
| "in_order (Inr _ # rs) = in_order rs"

definition shut_down ::
  "'s daemon \<Rightarrow> nat \<Rightarrow> error + unit \<Rightarrow> 's \<Rightarrow> world \<Rightarrow> (unit, world) result" where
  "shut_down d listener loop_result state w =
     (let path = socket_path (config d);
          w = close_listener path listener w in
      case cleanup path w of
        Panic w \<Rightarrow> Panic w
      | Hang \<Rightarrow> Hang
      | Ok _ w \<Rightarrow>
          (let (stop_result, w) = call_on_stop d state w in
           lift_result (in_order [loop_result, Inr (), stop_result]) w)
      | Err err w \<Rightarrow>
          (let (stop_result, w) = call_on_stop d state w in
           lift_result (in_order [loop_result, Inl err, stop_result]) w))"

definition serve :: "'s daemon \<Rightarrow> libc \<Rightarrow> world \<Rightarrow> (unit, world) result" where
  "serve d L w =
     (case on_start d of
        Inl err \<Rightarrow> Err (Startup err) (record_action AStart w)
      | Inr state \<Rightarrow>
        (case bind (socket_path (config d)) (record_action AStart w) of
           Ok listener w \<Rightarrow>
             (case run_event_loop d L state w of
                Ok _ (state, w) \<Rightarrow> shut_down d listener (Inr ()) state w
              | Err err (state, w) \<Rightarrow> shut_down d listener (Inl err) state w
              | Panic (state, w) \<Rightarrow> Panic (close_listener (socket_path (config d)) listener w)
              | Hang \<Rightarrow> Hang)
         | Err err w \<Rightarrow>
             (case call_on_stop d state w of
                (Inr _, w) \<Rightarrow> Err err w
              | (Inl stop_err, w) \<Rightarrow> Err stop_err w)
         | Panic w \<Rightarrow> Panic w
         | Hang \<Rightarrow> Hang))"

definition run :: "'s daemon \<Rightarrow> libc \<Rightarrow> world \<Rightarrow> (unit, world) result" where
  "run d L w =
     and_then (install_shutdown_flag L w) (\<lambda>_ w.
     and_then (claim_pid_file L (pid_file (config d)) w) (\<lambda>guard w.
     map_state (release guard) (serve d L w)))"

end
