(* ===== verification/Daemon_Laws.thy ===== *)
theory Daemon_Laws imports Daemon begin

text \<open>
  The daemon's behaviour: what one connection is answered, which connections the event loop
  serves and in which order, why it ends, that it ends, and what a run leaves behind.
\<close>

section \<open>One connection\<close>

text \<open>The answer to a frame: the reply's kind and payload, whether the daemon goes on, and the
  application's next state. Only a request reaches the application.\<close>

definition answer ::
  "'s daemon \<Rightarrow> 's \<Rightarrow> frame \<Rightarrow> frame_kind \<times> bytes \<times> connection_outcome \<times> 's" where
  "answer d st f =
     (case kind f of
        KPing \<Rightarrow> (KPong, [], Continue, st)
      | KShutdown \<Rightarrow> (KShutdownAck, [], StopDaemon, st)
      | KRequest \<Rightarrow>
          (case on_request d st (payload f) of
             (Inr response, st') \<Rightarrow> (KResponse, response, Continue, st')
           | (Inl message, st') \<Rightarrow> (KError, message, Continue, st'))
      | other \<Rightarrow> (KError, s2b ''unexpected frame kind: '' @ kind_debug other, Continue, st))"

text \<open>Every frame is handled alike: read, answer, write the answer.\<close>

lemma process_connection_answer:
  "process_connection d s st =
     (case read_frame (max_payload_len (config d)) s of
        Ok f s1 \<Rightarrow>
          (case answer d st f of
             (k, pl, out, st') \<Rightarrow>
               and_then (map_state (Pair st') (write_frame k pl s1)) (\<lambda>_. Ok out))
      | Err e s1 \<Rightarrow> Err e (st, s1)
      | Panic s1 \<Rightarrow> Panic (st, s1)
      | Hang \<Rightarrow> Hang)"
proof (cases "read_frame (max_payload_len (config d)) s")
  case (Ok f s1)
  then show ?thesis
    by (cases "kind f")
      (auto simp: process_connection_def answer_def split: prod.split sum.split)
qed (simp_all add: process_connection_def)

lemma process_connection_not_panic [simp]: "process_connection d s st \<noteq> Panic x"
proof (cases "read_frame (max_payload_len (config d)) s")
  case (Ok f s1)
  obtain k pl out st' where a: "answer d st f = (k, pl, out, st')" by (cases "answer d st f")
  show ?thesis
    using write_frame_not_panic [of k pl s1]
    by (cases "write_frame k pl s1") (simp_all add: process_connection_answer Ok a)
qed (auto simp: process_connection_answer)

lemma process_connection_OkD:
  assumes "process_connection d s st = Ok out (st', s')"
  obtains f s1 k pl where "read_frame (max_payload_len (config d)) s = Ok f s1"
    "answer d st f = (k, pl, out, st')" "write_frame k pl s1 = Ok () s'"
proof -
  from assms obtain f s1 where f: "read_frame (max_payload_len (config d)) s = Ok f s1"
    by (cases "read_frame (max_payload_len (config d)) s") (auto simp: process_connection_answer)
  obtain k pl out' st1 where a: "answer d st f = (k, pl, out', st1)" by (cases "answer d st f")
  with f assms have "write_frame k pl s1 = Ok () s' \<and> out' = out \<and> st1 = st'"
    by (cases "write_frame k pl s1") (auto simp: process_connection_answer)
  with f a that show thesis by blast
qed

lemma process_connection_final:
  assumes "final (process_connection d s st) = Some (st', s')"
  shows "case read_frame (max_payload_len (config d)) s of
     Ok f s1 \<Rightarrow>
       (case answer d st f of
          (k, pl, out, st1) \<Rightarrow>
            st' = st1 \<and>
            (\<exists>j. outbox s' = outbox s @ take j (frame_bytes k 0 pl) \<and>
                 (\<forall>o' x. process_connection d s st = Ok o' x \<longrightarrow>
                    o' = out \<and> length (frame_bytes k 0 pl) \<le> j)))
   | Err e s1 \<Rightarrow> process_connection d s st = Err e (st, s1) \<and> s' = s1 \<and> outbox s' = outbox s
   | _ \<Rightarrow> False"
proof (cases "read_frame (max_payload_len (config d)) s")
  case (Ok f s1)
  obtain k pl out st1 where a: "answer d st f = (k, pl, out, st1)" by (cases "answer d st f")
  have o1: "outbox s1 = outbox s" using read_frame_final [of "max_payload_len (config d)" s s1] Ok by auto
  have fin: "st' = st1" "final (write_frame_with_flags k 0 pl s1) = Some s'"
    using assms Ok a
    by (cases "write_frame k pl s1"; auto simp: process_connection_answer write_frame_def)+
  from write_frame_with_flags_out [OF fin(2)] fin(1) obtain j where
    j: "outbox s' = outbox s1 @ take j (frame_bytes k 0 pl)"
    "write_frame k pl s1 = Ok () s' \<longrightarrow> length (frame_bytes k 0 pl) \<le> j"
    by (auto simp: write_frame_def)
  have "o' = out \<and> length (frame_bytes k 0 pl) \<le> j" if "process_connection d s st = Ok o' x" for o' x
    using that Ok a j(2) assms
    by (cases "write_frame k pl s1") (auto simp: process_connection_answer)
  with Ok a fin(1) j(1) o1 show ?thesis by auto
next
  case (Err e s1)
  with assms read_frame_final [of "max_payload_len (config d)" s s1] show ?thesis
    by (auto simp: process_connection_answer)
qed (use assms in \<open>auto simp: process_connection_answer\<close>)

text \<open>A peer that closes and keeps reading cannot hold the daemon.\<close>

definition finite_peer :: "stream \<Rightarrow> bool" where
  "finite_peer s \<longleftrightarrow> peer_closed s \<and> WriteBlock \<notin> set (room s)"

lemma drain_returns: "WriteBlock \<notin> set evs \<Longrightarrow> drain buf out evs \<noteq> Hang"
  by (induction buf out evs rule: drain.induct) auto

lemma drain_room: "drain buf out evs = Ok u (evs', out') \<Longrightarrow> set evs' \<subseteq> set evs"
  by (induction buf out evs rule: drain.induct) (auto split: if_splits)

lemma write_all_returns:
  assumes "WriteBlock \<notin> set (room s)"
  shows "write_all buf s \<noteq> Hang"
  using drain_returns [OF assms, of buf "outbox s"]
  by (cases "drain buf (outbox s) (room s)") (auto simp: write_all_def)

lemma write_all_room: "write_all buf s = Ok u s' \<Longrightarrow> set (room s') \<subseteq> set (room s)"
  by (cases "drain buf (outbox s) (room s)") (auto simp: write_all_def dest!: drain_room)

lemma write_frame_returns:
  assumes "WriteBlock \<notin> set (room s)"
  shows "write_frame k pl s \<noteq> Hang"
proof -
  have "WriteBlock \<notin> set (room s1)" if "write_all b s = Ok u s1" for b u s1
    using write_all_room [OF that] assms by auto
  then show ?thesis
    using write_all_returns [OF assms]
    by (auto simp: write_frame_def write_frame_with_flags_def flush_def Let_def run_iffs
        write_all_returns split: option.splits)
qed

lemma process_connection_returns:
  assumes "finite_peer s"
  shows "process_connection d s st \<noteq> Hang"
proof (cases "read_frame (max_payload_len (config d)) s")
  case (Ok f s1)
  obtain k pl out st1 where a: "answer d st f = (k, pl, out, st1)" by (cases "answer d st f")
  have "room s1 = room s" using read_frame_final [of "max_payload_len (config d)" s s1] Ok by auto
  with assms have "write_frame k pl s1 \<noteq> Hang"
    by (auto simp: finite_peer_def intro!: write_frame_returns)
  with Ok a show ?thesis
    by (cases "write_frame k pl s1") (auto simp: process_connection_answer)
qed (use assms read_frame_closed in \<open>auto simp: process_connection_answer finite_peer_def\<close>)

section \<open>The loops as step relations\<close>

text \<open>The ways in which a returning inner loop can go, one rule for each exit and one for a served
  connection after which it goes on.\<close>

inductive accept_run ::
  "'s daemon \<Rightarrow> nat \<Rightarrow> 's \<Rightarrow> world \<Rightarrow> (connection_outcome \<times> nat, 's \<times> world) result \<Rightarrow> bool"
  for d where
  would_block:
    "accept w = Err e v \<Longrightarrow> io_kind e = WouldBlock \<Longrightarrow>
     accept_run d t st w (Ok (Continue, t) (st, v))"
| accept_fails:
    "accept w = Err e v \<Longrightarrow> io_kind e \<noteq> WouldBlock \<Longrightarrow> accept_run d t st w (Err (Io e) (st, v))"
| dropped:
    "accept w = Ok s u \<Longrightarrow> set_nonblocking u = Err e v \<Longrightarrow>
     accept_run d t st w (Err (Io e) (st, close_stream s v))"
| next_one:
    "accept w = Ok s u \<Longrightarrow> set_nonblocking u = Ok () v \<Longrightarrow> enter v = (x, y) \<Longrightarrow>
     process_connection d s st = Ok Continue (st1, s1) \<Longrightarrow>
     accept_run d (clock y) st1 (close_stream s1 y) r \<Longrightarrow> accept_run d t st w r"
| stopped:
    "accept w = Ok s u \<Longrightarrow> set_nonblocking u = Ok () v \<Longrightarrow> enter v = (x, y) \<Longrightarrow>
     process_connection d s st = Ok StopDaemon (st1, s1) \<Longrightarrow>
     accept_run d t st w (Ok (StopDaemon, clock y) (st1, close_stream s1 y))"
| failed:
    "accept w = Ok s u \<Longrightarrow> set_nonblocking u = Ok () v \<Longrightarrow> enter v = (x, y) \<Longrightarrow>
     process_connection d s st = Err e (st1, s1) \<Longrightarrow>
     accept_run d t st w (Err e (st1, close_stream s1 y))"

lemma accept_settled: "accept w \<noteq> Panic v" "accept w \<noteq> Hang"
  by (metis post.simps(3) settled_calls(13)) (metis post.simps(4) settled_calls(13))

lemma set_nonblocking_settled: "set_nonblocking w \<noteq> Panic v" "set_nonblocking w \<noteq> Hang"
  by (metis post.simps(3) settled_calls(12)) (metis post.simps(4) settled_calls(12))

lemma accept_loop_run: "accept_loop d t st w = Some r \<Longrightarrow> accept_run d t st w r"
proof (erule accept_loop.raw_induct [where P = accept_run, rotated], goal_cases)
  case (1 loop d t st w r)
  show ?case
  proof (cases "accept w")
    case (Ok s u)
    show ?thesis
    proof (cases "set_nonblocking u")
      case nb: (Ok x v)
      obtain y z where y: "enter v = (z, y)" by (cases "enter v")
      show ?thesis
      proof (cases "process_connection d s st")
        case pc: (Ok out sw)
        obtain st1 s1 where sw: "sw = (st1, s1)" by (cases sw)
        show ?thesis
        proof (cases out)
          case Continue
          with 1(2) Ok nb y pc sw have "loop d (clock y) st1 (close_stream s1 y) = Some r"
            by simp
          from 1(1) [OF this] Ok nb y pc sw Continue show ?thesis
            by (auto intro: accept_run.next_one)
        qed (use 1(2) Ok nb y pc sw in \<open>auto intro: accept_run.stopped\<close>)
      qed (use 1(2) Ok nb y in \<open>auto intro: accept_run.failed\<close>)
    qed (use 1(2) Ok set_nonblocking_settled in \<open>auto intro: accept_run.dropped\<close>)
  qed (use 1(2) accept_settled in
      \<open>auto intro: accept_run.would_block accept_run.accept_fails split: if_splits\<close>)
qed

text \<open>The wait of the outer loop: no signal has come, the idle time is not over, and \<open>u\<close> is the
  world in which \<^verbatim>\<open>poll\<close> is called.\<close>

definition waits :: "'s daemon \<Rightarrow> nat \<Rightarrow> world \<Rightarrow> world \<Rightarrow> bool" where
  "waits d t w u \<longleftrightarrow>
     \<not> signalled w \<and> u = snd (enter w) \<and> clock u - t < idle_timeout (config d)"

abbreviation wait_time :: "'s daemon \<Rightarrow> nat \<Rightarrow> world \<Rightarrow> duration" where
  "wait_time d t u \<equiv> min (idle_timeout (config d) - (clock u - t)) (poll_interval (config d))"

inductive event_run ::
  "'s daemon \<Rightarrow> libc \<Rightarrow> nat \<Rightarrow> 's \<Rightarrow> world \<Rightarrow> (unit, 's \<times> world) result \<Rightarrow> bool"
  for d L where
  signal_seen: "signalled w \<Longrightarrow> event_run d L t st w (Ok () (st, w))"
| idle_over:
    "u = snd (enter w) \<Longrightarrow> idle_timeout (config d) \<le> clock u - t \<Longrightarrow>
     event_run d L t st w (Ok () (st, u))"
| poll_fails:
    "waits d t w u \<Longrightarrow> poll_listener L (wait_time d t u) u = Err e v \<Longrightarrow>
     event_run d L t st w (Err e (st, v))"
| not_ready:
    "waits d t w u \<Longrightarrow> poll_listener L (wait_time d t u) u = Ok False v \<Longrightarrow>
     event_run d L t st v r \<Longrightarrow> event_run d L t st w r"
| ready_continue:
    "waits d t w u \<Longrightarrow> poll_listener L (wait_time d t u) u = Ok True v \<Longrightarrow>
     accept_run d t st v (Ok (Continue, t1) (st1, v1)) \<Longrightarrow>
     event_run d L t1 st1 v1 r \<Longrightarrow> event_run d L t st w r"
| ready_stop:
    "waits d t w u \<Longrightarrow> poll_listener L (wait_time d t u) u = Ok True v \<Longrightarrow>
     accept_run d t st v (Ok (StopDaemon, t1) (st1, v1)) \<Longrightarrow>
     event_run d L t st w (Ok () (st1, v1))"
| ready_error:
    "waits d t w u \<Longrightarrow> poll_listener L (wait_time d t u) u = Ok True v \<Longrightarrow>
     accept_run d t st v (Err e (st1, v1)) \<Longrightarrow> event_run d L t st w (Err e (st1, v1))"

lemma poll_listener_settled [simp]: "poll_listener L d w \<noteq> Panic v" "poll_listener L d w \<noteq> Hang"
  by (auto simp: poll_listener_def Let_def split: prod.splits)

lemma accept_run_shape: "accept_run d t st w r \<Longrightarrow> r \<noteq> Panic x \<and> r \<noteq> Hang"
  by (induction rule: accept_run.induct) auto

lemma event_loop_run: "event_loop d L t st w = Some r \<Longrightarrow> event_run d L t st w r"
proof (erule event_loop.raw_induct [where P = event_run, rotated], goal_cases)
  case (1 loop d L t st w r)
  let ?u = "snd (enter w)"
  show ?case
  proof (cases "signalled w \<or> idle_timeout (config d) \<le> clock ?u - t")
    case True
    with 1(2) show ?thesis
      by (auto simp: Let_def split: if_splits intro: event_run.signal_seen event_run.idle_over)
  next
    case False
    then have wt: "waits d t w ?u" by (simp add: waits_def)
    show ?thesis
    proof (cases "poll_listener L (wait_time d t ?u) ?u")
      case (Ok ready v)
      show ?thesis
      proof (cases ready)
        case True
        with 1(2) False Ok obtain r1 where r1: "accept_loop d t st v = Some r1"
          by (cases "accept_loop d t st v") (auto simp: Let_def)
        note run = accept_loop_run [OF r1]
        show ?thesis
        proof (cases r1)
          case r: (Ok ot sw)
          obtain out t1 where ot: "ot = (out, t1)" by (cases ot)
          obtain st1 v1 where sw: "sw = (st1, v1)" by (cases sw)
          note run' = run [unfolded r ot sw]
          note at = wt Ok [unfolded eqTrueI [OF True]]
          show ?thesis
          proof (cases out)
            case Continue
            with 1(2) False Ok True r1 r ot sw have "loop d L t1 st1 v1 = Some r" by (simp add: Let_def)
            from event_run.ready_continue [OF at run' [unfolded Continue] 1(1) [OF this]] show ?thesis .
          next
            case StopDaemon
            with 1(2) False Ok True r1 r ot sw have "r = Ok () (st1, v1)" by (simp add: Let_def)
            with event_run.ready_stop [OF at run' [unfolded StopDaemon]] show ?thesis by simp
          qed
        next
          case r: (Err e sw)
          obtain st1 v1 where sw: "sw = (st1, v1)" by (cases sw)
          from 1(2) False Ok True r1 r sw have "r = Err e (st1, v1)" by (simp add: Let_def)
          with event_run.ready_error [OF wt Ok [unfolded eqTrueI [OF True]] run [unfolded r sw]]
          show ?thesis by simp
        qed (use accept_run_shape [OF run] in auto)
      next
        case no: False
        with 1(2) False Ok have "loop d L t st v = Some r" by (simp add: Let_def)
        from event_run.not_ready [OF wt _ 1(1) [OF this]] Ok no show ?thesis by simp
      qed
    next
      case (Err e v)
      with 1(2) False have "r = Err e (st, v)" by (simp add: Let_def)
      with event_run.poll_fails [OF wt Err] show ?thesis by simp
    qed simp_all
  qed
qed

section \<open>What the loops respect\<close>

context wait_relation
begin

lemma accept_next_R:
  assumes "accept w = Ok s u" "set_nonblocking u = Ok x v" "enter v = (z, y)"
  shows "R w y"
proof -
  have "R w u" "R u v" "R v y"
    using accept_R [of w] set_nonblocking_R [of u] R_enter [of v] assms by auto
  then show ?thesis by (blast intro: R_trans)
qed

lemma accept_run_R: "accept_run d t st w r \<Longrightarrow> ends_in (\<lambda>(_, v). R w v) r"
proof (induction rule: accept_run.induct)
  case (next_one w s u v x y st st1 s1 r t)
  then have "R w (close_stream s1 y)"
    by (blast intro: R_trans accept_next_R close_stream_R)
  with next_one.IH show ?case by (auto intro: R_trans elim!: ends_in_mono)
next
  case (stopped w s u v x y st st1 s1 t)
  then show ?case by (auto intro: R_trans accept_next_R close_stream_R)
next
  case (failed w s u v x y st e st1 s1 t)
  then show ?case by (auto intro: R_trans accept_next_R close_stream_R)
next
  case (dropped w s u e v t st)
  then have "R w u" "R u v" using accept_R [of w] set_nonblocking_R [of u] by auto
  then show ?case by (auto intro: R_trans close_stream_R)
next
  case (would_block w e v t st)
  then show ?case using accept_R [of w] by auto
next
  case (accept_fails w e v t st)
  then show ?case using accept_R [of w] by auto
qed

lemma poll_listener_R:
  assumes "poll_contract L"
  shows "ends_in (R w) (poll_listener L t w)"
  using poll_contract.poll_env [OF assms]
  by (auto simp: poll_listener_def Let_def intro: env_step_R split: prod.split)

lemma polled_R:
  assumes "poll_contract L" "waits d t w u" "final (poll_listener L x u) = Some v"
  shows "R w v"
proof -
  have "R w u" using assms(2) by (simp add: waits_def R_enter)
  moreover have "R u v"
    using poll_listener_R [OF assms(1), of u x] assms(3) by (simp add: ends_in_final)
  ultimately show ?thesis by (rule R_trans)
qed

lemmas polled_Ok_R = polled_R [OF _ _ arg_cong [where f = final, THEN trans], OF _ _ _ final.simps(1)]
lemmas polled_Err_R = polled_R [OF _ _ arg_cong [where f = final, THEN trans], OF _ _ _ final.simps(2)]

lemma event_run_R:
  assumes "poll_contract L"
  shows "event_run d L t st w r \<Longrightarrow> ends_in (\<lambda>(_, v). R w v) r"
proof (induction rule: event_run.induct)
  case (not_ready t w u v st r)
  then have "R w v" using polled_Ok_R [OF assms] by blast
  with not_ready.IH show ?case by (auto intro: R_trans elim!: ends_in_mono)
next
  case (ready_continue t w u v st t1 st1 v1 r)
  then have "R w v" "R v v1" using polled_Ok_R [OF assms] accept_run_R by fastforce+
  then have "R w v1" by (rule R_trans)
  with ready_continue.IH show ?case by (auto intro: R_trans elim!: ends_in_mono)
next
  case (ready_stop t w u v st t1 st1 v1)
  then have "R w v" "R v v1" using polled_Ok_R [OF assms] accept_run_R by fastforce+
  then show ?case by (auto intro: R_trans)
next
  case (ready_error t w u v st e st1 v1)
  then have "R w v" "R v v1" using polled_Ok_R [OF assms] accept_run_R by fastforce+
  then show ?case by (auto intro: R_trans)
next
  case (poll_fails t w u e v st)
  then show ?case using polled_Err_R [OF assms] by fastforce
qed (auto intro: R_refl R_enter)

end

section \<open>Which connections are served\<close>

text \<open>A transcript: the connections taken in order, how each leaves the application's state and its
  stream, and how the sequence ends. Nothing follows a connection that failed or asked for
  shutdown. A fault of a system call may end the sequence between connections, or drop the one just
  accepted.\<close>

inductive conversation ::
  "'s daemon \<Rightarrow> 's \<Rightarrow> stream list \<Rightarrow> error + connection_outcome \<Rightarrow> 's \<Rightarrow> stream list \<Rightarrow> bool"
  for d where
  conv_pause: "conversation d st [] (Inr Continue) st []"
| conv_fault: "conversation d st [] (Inl (Io e)) st []"
| conv_drop: "conversation d st [s] (Inl (Io e)) st [s]"
| conv_error:
    "process_connection d s st = Err e (st1, s1) \<Longrightarrow> conversation d st [s] (Inl e) st1 [s1]"
| conv_stop:
    "process_connection d s st = Ok StopDaemon (st1, s1) \<Longrightarrow>
     conversation d st [s] (Inr StopDaemon) st1 [s1]"
| conv_next:
    "process_connection d s st = Ok Continue (st1, s1) \<Longrightarrow>
     conversation d st1 ss out st2 done_ss \<Longrightarrow>
     conversation d st (s # ss) out st2 (s1 # done_ss)"

lemma conversation_append:
  "conversation d st ss out st1 d1 \<Longrightarrow> out = Inr Continue \<Longrightarrow>
   conversation d st1 ss2 out2 st2 d2 \<Longrightarrow> conversation d st (ss @ ss2) out2 st2 (d1 @ d2)"
  by (induction rule: conversation.induct) (auto intro: conversation.intros)

definition transcript ::
  "'s daemon \<Rightarrow> 's \<Rightarrow> world \<Rightarrow> error + connection_outcome \<Rightarrow> 's \<Rightarrow> world \<Rightarrow> bool" where
  "transcript d st w out st1 v \<longleftrightarrow>
     (\<exists>ss done_ss. pending w = ss @ pending v \<and> served v = served w @ done_ss \<and>
                   conversation d st ss out st1 done_ss)"

lemma transcript_quiet:
  assumes "pending v = pending w" "served v = served w"
  shows "transcript d st w (Inr Continue) st v" "transcript d st w (Inl (Io e)) st v"
  using assms by (auto simp: transcript_def intro: conversation.intros)

lemma transcript_trans:
  assumes "transcript d st w (Inr Continue) st1 u" "transcript d st1 u out st2 v"
  shows "transcript d st w out st2 v"
proof -
  from assms(1) obtain ss1 d1 where
    1: "pending w = ss1 @ pending u" "served u = served w @ d1"
    "conversation d st ss1 (Inr Continue) st1 d1"
    by (auto simp: transcript_def)
  from assms(2) obtain ss2 d2 where
    2: "pending u = ss2 @ pending v" "served v = served u @ d2" "conversation d st1 ss2 out st2 d2"
    by (auto simp: transcript_def)
  from 1 2 conversation_append [OF 1(3) refl 2(3)] show ?thesis
    by (auto simp: transcript_def intro!: exI [of _ "ss1 @ ss2"] exI [of _ "d1 @ d2"])
qed

lemma transcript_one:
  assumes "pending w = s # pending y" "served y = served w"
    "conversation d st [s] out st1 [s1]"
  shows "transcript d st w out st1 (close_stream s1 y)"
  using assms
  by (auto simp: transcript_def close_stream_def intro!: exI [of _ "[s]"] exI [of _ "[s1]"])

lemma accept_next_transcript:
  assumes "accept w = Ok s u" "set_nonblocking u = Ok x v" "enter v = (z, y)"
  shows "pending w = s # pending y" "served y = served w"
  using accept_pending [of w] set_nonblocking_pending [of u] pending_enter [of v]
    served_calls(1) [of w] served_calls(2) [of u] enter_frame(3) [of v] assms
  by auto

text \<open>How a loop's result reads as the end of a transcript.\<close>

fun told :: "'s daemon \<Rightarrow> 's \<Rightarrow> world \<Rightarrow> (connection_outcome \<times> nat, 's \<times> world) result \<Rightarrow> bool" where
  "told d st w (Ok (out, t) (st1, v)) = transcript d st w (Inr out) st1 v"
| "told d st w (Err e (st1, v)) = transcript d st w (Inl e) st1 v"
| "told d st w _ = False"

lemma accept_run_told: "accept_run d t st w r \<Longrightarrow> told d st w r"
proof (induction rule: accept_run.induct)
  case (would_block w e v t st)
  then show ?case
    using accept_pending [of w] served_calls(1) [of w] by (auto intro: transcript_quiet)
next
  case (accept_fails w e v t st)
  then show ?case
    using accept_pending [of w] served_calls(1) [of w] by (auto intro: transcript_quiet)
next
  case (dropped w s u e v t st)
  then have "pending w = s # pending v" "served v = served w"
    using accept_pending [of w] served_calls(1) [of w] set_nonblocking_pending [of u]
      served_calls(2) [of u] by auto
  then show ?case by (auto intro: transcript_one conversation.intros)
next
  case (next_one w s u v x y st st1 s1 r t)
  have "transcript d st w (Inr Continue) st1 (close_stream s1 y)"
    using next_one.hyps
    by (intro transcript_one accept_next_transcript) (auto intro: conversation.intros)
  with next_one.IH show ?case
    by (cases "(d, st1, close_stream s1 y, r)" rule: told.cases) (auto intro: transcript_trans)
next
  case (stopped w s u v x y st st1 s1 t)
  then show ?case
    by (auto intro!: transcript_one intro: accept_next_transcript conversation.intros)
next
  case (failed w s u v x y st e st1 s1 t)
  then show ?case
    by (auto intro!: transcript_one intro: accept_next_transcript conversation.intros)
qed

lemma env_step_served: "env_step w v \<Longrightarrow> served v = served w"
proof -
  have "served (((\<lambda>u. snd (enter u)) ^^ n) w) = served w" for n
    by (induction n) (simp_all add: enter_frame)
  then show "env_step w v \<Longrightarrow> served v = served w" by (auto simp: env_step_def)
qed

lemma poll_listener_quiet:
  assumes "poll_contract L"
  shows "post (\<lambda>b v. pending v = pending w \<and> served v = served w)
              (\<lambda>e v. pending v = pending w \<and> served v = served w \<and> (\<exists>x. e = Io x))
              (poll_listener L x w)"
proof -
  obtain rc revents e v where p: "poll1 L (poll_timeout_ms x) w = (rc, revents, e, v)"
    by (metis prod_cases4)
  from poll_contract.poll_env [OF assms p] have "pending v = pending w" "served v = served w"
    by (simp_all add: pending_env_step env_step_served)
  with p show ?thesis by (simp add: poll_listener_def)
qed

lemma waits_quiet: "waits d t w u \<Longrightarrow> pending u = pending w \<and> served u = served w"
  by (auto simp: waits_def enter_frame)

lemma polled_quiet:
  assumes "poll_contract L" "waits d t w u"
  shows "poll_listener L x u = Ok b v \<Longrightarrow> transcript d st w (Inr Continue) st v"
    and "poll_listener L x u = Err e v \<Longrightarrow> transcript d st w (Inl e) st v"
  using poll_listener_quiet [OF assms(1), of u x] waits_quiet [OF assms(2)]
  by (auto intro: transcript_quiet)

fun ended :: "'s daemon \<Rightarrow> 's \<Rightarrow> world \<Rightarrow> (unit, 's \<times> world) result \<Rightarrow> bool" where
  "ended d st w (Ok u (st1, v)) = (\<exists>out. transcript d st w (Inr out) st1 v)"
| "ended d st w (Err e (st1, v)) = transcript d st w (Inl e) st1 v"
| "ended d st w _ = False"

lemma ended_after:
  "transcript d st w (Inr Continue) st1 u \<Longrightarrow> ended d st1 u r \<Longrightarrow> ended d st w r"
  by (cases "(d, st1, u, r)" rule: ended.cases) (auto intro: transcript_trans)

lemma event_run_ended:
  assumes "poll_contract L"
  shows "event_run d L t st w r \<Longrightarrow> ended d st w r"
proof (induction rule: event_run.induct)
  case (signal_seen w t st)
  then show ?case using transcript_quiet(1) [of w w d st] by auto
next
  case (idle_over u w t st)
  then show ?case using transcript_quiet(1) [of u w d st] by (auto simp: enter_frame)
next
  case (poll_fails t w u e v st)
  then show ?case using polled_quiet(2) [OF assms] by fastforce
next
  case (not_ready t w u v st r)
  from ended_after [OF polled_quiet(1) [OF assms not_ready.hyps(1,2)] not_ready.IH] show ?case .
next
  case (ready_continue t w u v st t1 st1 v1 r)
  from accept_run_told [OF ready_continue.hyps(3)]
  have "transcript d st v (Inr Continue) st1 v1" by simp
  from ended_after [OF transcript_trans [OF polled_quiet(1) [OF assms ready_continue.hyps(1,2)] this]
      ready_continue.IH]
  show ?case .
next
  case (ready_stop t w u v st t1 st1 v1)
  from accept_run_told [OF ready_stop.hyps(3)]
  have "transcript d st v (Inr StopDaemon) st1 v1" by simp
  from transcript_trans [OF polled_quiet(1) [OF assms ready_stop.hyps(1,2)] this]
  show ?case by auto
next
  case (ready_error t w u v st e st1 v1)
  from accept_run_told [OF ready_error.hyps(3)] have "transcript d st v (Inl e) st1 v1" by simp
  from transcript_trans [OF polled_quiet(1) [OF assms ready_error.hyps(1,2)] this]
  show ?case by simp
qed

section \<open>Why the loop ends\<close>

lemma accept_run_activity:
  "accept_run d t st w r \<Longrightarrow> t \<le> clock w \<Longrightarrow> r = Ok (out, t1) (st1, v) \<Longrightarrow>
   t \<le> t1 \<and> t1 \<le> clock v"
proof (induction arbitrary: out t1 st1 v rule: accept_run.induct)
  case (would_block w e v' t st)
  then show ?case using time.accept_R [of w] by auto
next
  case (next_one w s u v' x y st st' s1 r t)
  have "clock w \<le> clock y" using time.accept_next_R next_one.hyps by blast
  with next_one.IH [OF _ next_one.prems(2)] next_one.prems(1) show ?case
    by (simp add: close_stream_def)
next
  case (stopped w s u v' x y st st' s1 t)
  have "clock w \<le> clock y" using time.accept_next_R stopped.hyps by blast
  with stopped.prems show ?case by (auto simp: close_stream_def)
qed simp_all

definition stop_reason :: "'s daemon \<Rightarrow> nat \<Rightarrow> 's \<Rightarrow> world \<Rightarrow> 's \<Rightarrow> world \<Rightarrow> bool" where
  "stop_reason d t st w st1 v \<longleftrightarrow>
     signalled v \<or> t + idle_timeout (config d) \<le> clock v \<or>
     transcript d st w (Inr StopDaemon) st1 v"

lemma stop_reason_after:
  assumes "transcript d st w (Inr Continue) st1 u" "t \<le> t1" "stop_reason d t1 st1 u st2 v"
  shows "stop_reason d t st w st2 v"
  using assms transcript_trans [OF assms(1)] by (auto simp: stop_reason_def)

lemma event_run_reason:
  assumes "poll_contract L"
  shows "event_run d L t st w r \<Longrightarrow> t \<le> clock w \<Longrightarrow> 0 < idle_timeout (config d) \<Longrightarrow>
         r = Ok x (st1, v) \<Longrightarrow> stop_reason d t st w st1 v"
proof (induction arbitrary: x st1 v rule: event_run.induct)
  case (signal_seen w t st)
  then show ?case by (simp add: stop_reason_def)
next
  case (idle_over u w t st)
  then show ?case by (auto simp: stop_reason_def)
next
  case (not_ready t w u v' st r)
  have "clock w \<le> clock v'" using time.polled_Ok_R [OF assms not_ready.hyps(1,2)] .
  with not_ready.prems have t: "t \<le> clock v'" by simp
  from stop_reason_after [OF polled_quiet(1) [OF assms not_ready.hyps(1,2)] order_refl
      not_ready.IH [OF t not_ready.prems(2,3)]]
  show ?case .
next
  case (ready_continue t w u v' st t1 st' v1 r)
  have "clock w \<le> clock v'" using time.polled_Ok_R [OF assms ready_continue.hyps(1,2)] .
  with ready_continue.prems have "t \<le> clock v'" by simp
  from accept_run_activity [OF ready_continue.hyps(3) this refl]
  have t1: "t \<le> t1" "t1 \<le> clock v1" by simp_all
  from accept_run_told [OF ready_continue.hyps(3)]
  have "transcript d st v' (Inr Continue) st' v1" by simp
  from stop_reason_after [OF transcript_trans [OF polled_quiet(1) [OF assms ready_continue.hyps(1,2)] this]
      t1(1) ready_continue.IH [OF t1(2) ready_continue.prems(2,3)]]
  show ?case .
next
  case (ready_stop t w u v' st t1 st' v1)
  from accept_run_told [OF ready_stop.hyps(3)]
  have "transcript d st v' (Inr StopDaemon) st' v1" by simp
  from transcript_trans [OF polled_quiet(1) [OF assms ready_stop.hyps(1,2)] this] ready_stop.prems
  show ?case by (simp add: stop_reason_def)
qed simp_all

section \<open>The loop ends\<close>

lemma accept_run_progress:
  "accept_run d t st w r \<Longrightarrow> r = Ok (out, t1) (st1, v) \<Longrightarrow>
   set (pending v) \<subseteq> set (pending w) \<and>
   (pending v = pending w \<and> t1 = t \<or> length (pending v) < length (pending w))"
proof (induction arbitrary: out t1 st1 v rule: accept_run.induct)
  case (would_block w e v' t st)
  then show ?case using accept_pending [of w] by auto
next
  case (next_one w s u v' x y st st' s1 r t)
  have "pending w = s # pending y" using accept_next_transcript(1) next_one.hyps by blast
  with next_one.IH [OF next_one.prems] show ?case by auto
next
  case (stopped w s u v' x y st st' s1 t)
  have "pending w = s # pending y" using accept_next_transcript(1) stopped.hyps by blast
  with stopped.prems show ?case by auto
qed simp_all

lemma accept_loop_returns:
  "\<forall>s \<in> set (pending w). finite_peer s \<Longrightarrow> \<exists>r. accept_loop d t st w = Some r"
proof (induction "length (pending w)" arbitrary: t st w rule: less_induct)
  case less
  show ?case
  proof (cases "accept w")
    case (Ok s u)
    show ?thesis
    proof (cases "set_nonblocking u")
      case nb: (Ok x v)
      obtain y z where y: "enter v = (z, y)" by (cases "enter v")
      from accept_next_transcript(1) [OF Ok nb y] have pend: "pending w = s # pending y" .
      with less.prems have "finite_peer s" by simp
      then have ret: "process_connection d s st \<noteq> Hang" by (rule process_connection_returns)
      show ?thesis
      proof (cases "process_connection d s st")
        case pc: (Ok out sw)
        obtain st1 s1 where sw: "sw = (st1, s1)" by (cases sw)
        have "\<exists>r. accept_loop d (clock y) st1 (close_stream s1 y) = Some r"
          using less.hyps [of "close_stream s1 y" "clock y" st1] less.prems pend by simp
        with Ok nb y pc sw show ?thesis
          by (subst accept_loop.simps) (auto split: connection_outcome.split)
      next
        case pc: (Err e sw)
        with Ok nb y show ?thesis by (subst accept_loop.simps) (auto split: prod.split)
      qed (use ret in simp_all)
    qed (use Ok set_nonblocking_settled in \<open>auto simp: accept_loop.simps\<close>)
  qed (use accept_settled in \<open>auto simp: accept_loop.simps\<close>)
qed

lemma event_loop_returns:
  assumes "poll_contract L"
  shows "\<forall>s \<in> set (pending w). finite_peer s \<Longrightarrow> \<exists>r. event_loop d L t st w = Some r"
proof (induction "(length (pending w), t + idle_timeout (config d) - clock w)" arbitrary: t st w
    rule: wf_induct [OF wf_lex_prod [OF wf_less wf_less]])
  case 1
  let ?u = "snd (enter w)"
  note IH = 1(1) [rule_format, OF _ refl]
  show ?case
  proof (cases "signalled w \<or> idle_timeout (config d) \<le> clock ?u - t")
    case True
    then show ?thesis by (subst event_loop.simps) (auto simp: Let_def)
  next
    case False
    then have wt: "waits d t w ?u" by (simp add: waits_def)
    have pu: "pending ?u = pending w" by simp
    have cu: "clock w \<le> clock ?u" by (rule enter_frame)
    from False have room: "clock ?u < t + idle_timeout (config d)" by auto
    show ?thesis
    proof (cases "poll_listener L (wait_time d t ?u) ?u")
      case (Ok ready v)
      then have pv: "pending v = pending w"
        using poll_listener_quiet [OF assms, of ?u "wait_time d t ?u"] by simp
      have later: "clock ?u < clock v"
      proof -
        obtain rc revents e v' where "poll1 L (poll_timeout_ms (wait_time d t ?u)) ?u = (rc, revents, e, v')"
          by (metis prod_cases4)
        with poll_contract.poll_time [OF assms this] Ok show ?thesis
          by (auto simp: poll_listener_def split: if_splits)
      qed
      have again: "\<exists>r. event_loop d L t st1 v1 = Some r"
        if "pending v1 = pending v" "clock v \<le> clock v1" for st1 v1
        using IH [of v1 t st1] that 1(2) pv later room cu by simp
      show ?thesis
      proof (cases ready)
        case True
        from accept_loop_returns [of v d t st] 1(2) pv obtain r where
          r: "accept_loop d t st v = Some r" by auto
        note run = accept_loop_run [OF r]
        show ?thesis
        proof (cases r)
          case rr: (Ok ot sw)
          obtain out t1 where ot: "ot = (out, t1)" by (cases ot)
          obtain st1 v1 where sw: "sw = (st1, v1)" by (cases sw)
          note run' = run [unfolded rr ot sw]
          have cl: "clock v \<le> clock v1" using time.accept_run_R [OF run'] by simp
          have "\<exists>r. event_loop d L t1 st1 v1 = Some r"
          proof (cases "pending v1 = pending v \<and> t1 = t")
            case True
            with again [OF _ cl] show ?thesis by simp
          next
            case False
            with accept_run_progress [OF run' refl] pv 1(2) IH [of v1 t1 st1] show ?thesis by auto
          qed
          with False True Ok r rr ot sw show ?thesis
            by (subst event_loop.simps) (auto simp: Let_def split: connection_outcome.split)
        next
          case rr: (Err e sw)
          with False True Ok r show ?thesis by (subst event_loop.simps) (auto simp: Let_def)
        qed (use accept_run_shape [OF run] in auto)
      next
        case no: False
        with again [of v st] False Ok show ?thesis
          by (subst event_loop.simps) (auto simp: Let_def)
      qed
    next
      case (Err e v)
      with False show ?thesis by (subst event_loop.simps) (auto simp: Let_def)
    qed simp_all
  qed
qed

section \<open>The loops leave files alone\<close>

text \<open>What a world keeps of paths nobody else touches.\<close>

definition keeps :: "path set \<Rightarrow> world \<Rightarrow> world \<Rightarrow> bool" where
  "keeps P w v \<longleftrightarrow>
     (\<forall>p \<in> P. fs v p = fs w p) \<and> pid_self v = pid_self w \<and> next_ino v = next_ino w \<and> calm P v"

lemma same_keeps: "same P w v \<Longrightarrow> keeps P w v"
  by (simp add: keeps_def same_def)

interpretation kept: wait_relation "\<lambda>w v. calm P w \<longrightarrow> keeps P w v" for P
proof
  fix w :: world
  show "calm P w \<longrightarrow> keeps P w (snd (enter w))"
    by (metis enter_calm same_keeps snd_conv)
qed (auto simp: keeps_def)

end
