(* ===== verification/Daemon_Run.thy ===== *)
theory Daemon_Run imports Daemon_Laws begin

text \<open>
  The whole run of a daemon: the order of its actions from start-up to clean-up, on success and on
  every failure, and the state it leaves the file system in.
\<close>

section \<open>The actions of a run\<close>

text \<open>What each stage may do to the file system, as sequences of recorded actions.\<close>

definition claim_acts :: "path option \<Rightarrow> action list set" where
  "claim_acts p =
     (case p of
        None \<Rightarrow> {[]}
      | Some q \<Rightarrow> {replicate k (AUnlink q) @ [ACreate q] | k. k \<le> 3})"

definition claim_failed_acts :: "path option \<Rightarrow> action list set" where
  "claim_failed_acts p =
     (case p of None \<Rightarrow> {} | Some q \<Rightarrow> {replicate k (AUnlink q) | k. k \<le> 3} \<union> claim_acts p)"

definition removal :: "path \<Rightarrow> action list set" where
  "removal p = {[], [AUnlink p]}"

definition release_acts :: "path option \<Rightarrow> action list set" where
  "release_acts p = (case p of None \<Rightarrow> {[]} | Some q \<Rightarrow> removal q)"

definition bind_acts :: "path \<Rightarrow> action list set" where
  "bind_acts p = {[ABind p], [AUnlink p, ABind p]}"

definition bind_failed_acts :: "path \<Rightarrow> action list set" where
  "bind_failed_acts p = removal p \<union> {b @ [AClose p] | b. b \<in> bind_acts p}"

definition session_acts :: "path \<Rightarrow> action list set" where
  "session_acts p = {b @ [AClose p] @ u | b u. b \<in> bind_acts p \<and> u \<in> removal p}"

text \<open>A run that reached its event loop and left it, and a run that ended before.\<close>

definition completed_run :: "daemon_config \<Rightarrow> action list \<Rightarrow> bool" where
  "completed_run cfg acts \<longleftrightarrow>
     (\<exists>c \<in> claim_acts (pid_file cfg). \<exists>s \<in> session_acts (socket_path cfg).
      \<exists>x \<in> release_acts (pid_file cfg). acts = c @ [AStart] @ s @ [AStop] @ x)"

definition aborted_run :: "daemon_config \<Rightarrow> action list \<Rightarrow> bool" where
  "aborted_run cfg acts \<longleftrightarrow>
     acts = [] \<or> acts \<in> claim_failed_acts (pid_file cfg) \<or>
     (\<exists>c \<in> claim_acts (pid_file cfg). \<exists>x \<in> release_acts (pid_file cfg).
        acts = c @ [AStart] @ x \<or>
        (\<exists>b \<in> bind_failed_acts (socket_path cfg). acts = c @ [AStart] @ b @ [AStop] @ x))"

section \<open>Each stage\<close>

lemma register_flag_log:
  "post (\<lambda>_ v. trace v = trace w) (\<lambda>_ v. trace v = trace w) (register_flag L sig w)"
  unfolding register_flag_def post_map_err
proof (rule post_syscall_log)
  fix v :: world assume "trace v = trace w"
  then show "post (\<lambda>_ v. trace v = trace w) (\<lambda>_ v. trace v = trace w)
      (lift_result (register_signal L sig v) v)"
    by (cases "register_signal L sig v") simp_all
qed

lemma install_shutdown_flag_log:
  "post (\<lambda>_ v. trace v = trace w) (\<lambda>_ v. trace v = trace w) (install_shutdown_flag L w)"
  unfolding install_shutdown_flag_def Let_def
proof (rule post_seq [OF register_flag_log])
  fix v :: world assume "trace v = trace (w\<lparr>signalled := False\<rparr>)"
  then show "post (\<lambda>_ v. trace v = trace w) (\<lambda>_ v. trace v = trace w) (register_flag L SIGTERM v)"
    using register_flag_log [of v L SIGTERM] by simp
qed simp

lemma claim_pid_file_log:
  "post (\<lambda>g v. map_option guard_path g = p \<and> (\<exists>c \<in> claim_acts p. trace v = trace w @ c))
        (\<lambda>_ v. \<exists>c \<in> claim_failed_acts p. trace v = trace w @ c)
        (claim_pid_file L p w)"
proof (cases p)
  case (Some q)
  have "post (\<lambda>g v. map_option guard_path g = p \<and> (\<exists>c \<in> claim_acts p. trace v = trace w @ c))
        (\<lambda>_ v. \<exists>c \<in> claim_failed_acts p. trace v = trace w @ c)
        (and_then (claim L q w) (\<lambda>g. Ok (Some g)))"
    by (rule post_seq [OF claim_log [of q w L]])
      (auto simp: Some claim_acts_def claim_failed_acts_def)
  then show ?thesis by (simp add: claim_pid_file_def Some)
qed (simp add: claim_pid_file_def claim_acts_def)

lemma release_log:
  "\<exists>x \<in> release_acts (map_option guard_path g). trace (release g w) = trace w @ x"
proof (cases g)
  case (Some h)
  then show ?thesis
    using remove_file_log [of w "guard_path h"]
    by (cases "remove_file (guard_path h) w")
      (auto simp: release_def drop_guard_def release_acts_def removal_def)
qed (simp add: release_def release_acts_def)

lemma cleanup_log:
  "post (\<lambda>_ v. \<exists>u \<in> removal p. trace v = trace w @ u) (\<lambda>_ v. \<exists>u \<in> removal p. trace v = trace w @ u)
     (cleanup p w)"
  unfolding cleanup_def by (rule post_match [OF remove_file_log]) (simp_all add: removal_def)

lemma close_listener_log: "trace (close_listener p l w) = trace w @ [AClose p]"
  by (auto simp: close_listener_def split: option.split node.split bool.split)

lemma post_lift_result: "Q w \<Longrightarrow> post (\<lambda>_. Q) (\<lambda>_. Q) (lift_result r w)"
  by (cases r) simp_all

lemma call_on_stop_log: "call_on_stop d st w = (r, v) \<Longrightarrow> trace v = trace w @ [AStop]"
  by (auto simp: call_on_stop_def record_action_def)

lemma shut_down_log:
  "post (\<lambda>_ v. \<exists>u \<in> removal (socket_path (config d)).
            trace v = trace w @ [AClose (socket_path (config d))] @ u @ [AStop])
        (\<lambda>_ v. \<exists>u \<in> removal (socket_path (config d)).
            trace v = trace w @ [AClose (socket_path (config d))] @ u @ [AStop])
        (shut_down d l lr st w)"
  unfolding shut_down_def Let_def
proof (rule post_match [OF cleanup_log], unfold close_listener_log, elim bexE)
qed (auto simp: call_on_stop_log split: prod.split intro!: post_lift_result)

lemma event_loop_log:
  assumes "poll_contract L"
  shows "partly (\<lambda>_ (_, v). trace v = trace w) (\<lambda>_ (_, v). trace v = trace w)
           (run_event_loop d L st w)"
proof (cases "event_loop d L (clock (snd (enter w))) st (snd (enter w))")
  case (Some r)
  note run = event_loop_run [OF Some]
  have "ends_in (\<lambda>(_, v). trace v = trace (snd (enter w))) r"
    using log.event_run_R [OF assms run] .
  then show ?thesis
    using event_run_ended [OF assms run] Some
    by (cases r) (auto simp: run_event_loop_def Let_def enter_frame)
qed (simp add: run_event_loop_def Let_def)

abbreviation serve_completed :: "'s daemon \<Rightarrow> world \<Rightarrow> world \<Rightarrow> bool" where
  "serve_completed d w v \<equiv>
     \<exists>s \<in> session_acts (socket_path (config d)). trace v = trace w @ [AStart] @ s @ [AStop]"

abbreviation serve_aborted :: "'s daemon \<Rightarrow> world \<Rightarrow> world \<Rightarrow> bool" where
  "serve_aborted d w v \<equiv>
     trace v = trace w @ [AStart] \<or>
     (\<exists>b \<in> bind_failed_acts (socket_path (config d)). trace v = trace w @ [AStart] @ b @ [AStop])"

lemma bind_acts_log:
  "post (\<lambda>_ v. \<exists>b \<in> bind_acts p. trace v = trace w @ b)
        (\<lambda>_ v. \<exists>b \<in> bind_failed_acts p. trace v = trace w @ b) (bind p w)"
  by (rule post_mono [OF bind_log])
    (auto simp: bind_acts_def bind_failed_acts_def removal_def)

lemma shut_down_session:
  assumes "b \<in> bind_acts (socket_path (config d))" "trace v = trace w @ [AStart] @ b"
  shows "partly (\<lambda>_. serve_completed d w) (\<lambda>_. serve_completed d w) (shut_down d l lr st v)"
  using assms
  by (intro post_partly [OF shut_down_log]) (fastforce simp: session_acts_def)+

lemma serve_log:
  assumes "poll_contract L"
  shows "partly (\<lambda>_ v. serve_completed d w v)
           (\<lambda>_ v. serve_completed d w v \<or> serve_aborted d w v) (serve d L w)"
proof (cases "on_start d")
  case (Inl e)
  then show ?thesis by (simp add: serve_def)
next
  case (Inr st)
  let ?w = "record_action AStart w"
  show ?thesis
  proof (cases "bind (socket_path (config d)) ?w")
    case (Ok l v)
    with bind_acts_log [of "socket_path (config d)" ?w] obtain b where
      b: "b \<in> bind_acts (socket_path (config d))" "trace v = trace w @ [AStart] @ b" by auto
    have done_run: "partly (\<lambda>_. serve_completed d w) (\<lambda>_ v. serve_completed d w v \<or> serve_aborted d w v)
        (shut_down d l lr st1 u)" if "trace u = trace v" for lr st1 u
      using shut_down_session [of b d u w l lr st1] b that by (auto intro: partly_mono)
    show ?thesis
    proof (cases "run_event_loop d L st v")
      case loop: (Ok x sw)
      with event_loop_log [OF assms, of v d st] have "trace (snd sw) = trace v" by (cases sw) auto
      from done_run [OF this] Inr Ok loop show ?thesis by (cases sw) (simp add: serve_def)
    next
      case loop: (Err e sw)
      with event_loop_log [OF assms, of v d st] have "trace (snd sw) = trace v" by (cases sw) auto
      from done_run [OF this] Inr Ok loop show ?thesis by (cases sw) (simp add: serve_def)
    qed (use Inr Ok event_loop_log [OF assms, of v d st] in \<open>auto simp: serve_def\<close>)
  next
    case (Err e v)
    with bind_acts_log [of "socket_path (config d)" ?w] obtain b where
      b: "b \<in> bind_failed_acts (socket_path (config d))" "trace v = trace w @ [AStart] @ b" by auto
    obtain r u where st: "call_on_stop d st v = (r, u)" by (cases "call_on_stop d st v")
    with b Inr Err call_on_stop_log [OF st] show ?thesis by (cases r) (auto simp: serve_def)
  qed (use Inr bind_acts_log [of "socket_path (config d)" ?w] in \<open>auto simp: serve_def\<close>)
qed

lemma partly_map_state:
  "partly Q E (map_state f r) \<longleftrightarrow> partly (\<lambda>x w. Q x (f w)) (\<lambda>e w. E e (f w)) r"
  by (cases r) auto

lemma run_log:
  assumes "poll_contract L"
  shows "partly (\<lambda>_ v. \<exists>acts. trace v = trace w @ acts \<and> completed_run (config d) acts)
           (\<lambda>_ v. \<exists>acts. trace v = trace w @ acts \<and>
                   (completed_run (config d) acts \<or> aborted_run (config d) acts)) (run d L w)"
    (is "partly ?Q ?E _")
  unfolding run_def
proof (rule partly_seq [OF post_partly [OF install_shutdown_flag_log]])
  fix u :: world assume u: "trace u = trace w"
  show "partly ?Q ?E (and_then (claim_pid_file L (pid_file (config d)) u)
          (\<lambda>guard w. map_state (release guard) (serve d L w)))"
  proof (rule partly_seq [OF post_partly [OF claim_pid_file_log]])
    fix g :: "pid_guard option" and v :: world
    assume "map_option guard_path g = pid_file (config d) \<and>
      (\<exists>c \<in> claim_acts (pid_file (config d)). trace v = trace u @ c)"
    then obtain c where g: "map_option guard_path g = pid_file (config d)"
      and c: "c \<in> claim_acts (pid_file (config d))" "trace v = trace w @ c" using u by auto
    have rel: "\<exists>x \<in> release_acts (pid_file (config d)). trace (release g t) = trace t @ x" for t
      using release_log [of g t] g by simp
    have comp: "?Q y (release g t)" if "serve_completed d v t" for y t
      using that c rel [of t] by (fastforce simp: completed_run_def)
    have abort: "?E y (release g t)" if ab: "serve_aborted d v t" for y t
    proof -
      obtain x where x: "x \<in> release_acts (pid_file (config d))" "trace (release g t) = trace t @ x"
        using rel by blast
      show ?thesis
      proof (cases "trace t = trace v @ [AStart]")
        case True
        with x c show ?thesis
          by (intro exI [of _ "c @ [AStart] @ x"]) (auto simp: aborted_run_def)
      next
        case False
        with ab obtain b where "b \<in> bind_failed_acts (socket_path (config d))"
          "trace t = trace v @ [AStart] @ b @ [AStop]" by auto
        with x c show ?thesis
          by (intro exI [of _ "c @ [AStart] @ b @ [AStop] @ x"]) (auto simp: aborted_run_def)
      qed
    qed
    show "partly ?Q ?E (map_state (release g) (serve d L v))"
      unfolding partly_map_state
    proof (rule partly_mono [OF serve_log [OF assms]])
      fix e t assume "serve_completed d v t \<or> serve_aborted d v t"
      then show "?E e (release g t)" using comp abort by blast
    qed (rule comp)
  next
    fix e and v :: world
    assume "\<exists>c \<in> claim_failed_acts (pid_file (config d)). trace v = trace u @ c"
    then show "?E e v" using u by (auto simp: aborted_run_def)
  qed auto
next
  fix e and v :: world assume "trace v = trace w"
  then show "?E e v" by (auto simp: aborted_run_def)
qed auto

section \<open>A run that others leave alone\<close>

definition stop_result :: "'s daemon \<Rightarrow> 's \<Rightarrow> error + unit" where
  "stop_result d st = (case on_stop d st of Inl e \<Rightarrow> Inl (Shutdown e) | Inr u \<Rightarrow> Inr u)"

text \<open>The paths of a run: both entries and their directories are left alone by others.\<close>

definition own_paths :: "path set \<Rightarrow> path \<Rightarrow> path \<Rightarrow> world \<Rightarrow> bool" where
  "own_paths P p sp w \<longleftrightarrow>
     calm P w \<and> placed P p w \<and> placed P sp w \<and> p \<noteq> sp \<and> plain_entry p w \<and>
     (\<forall>q. fs w sp \<noteq> Some (Link q))"

definition gone :: "path set \<Rightarrow> path \<Rightarrow> path \<Rightarrow> world \<Rightarrow> world \<Rightarrow> bool" where
  "gone P p sp w v \<longleftrightarrow>
     calm P v \<and> fs v p = None \<and> fs v sp = None \<and> (\<forall>q \<in> P - {p, sp}. fs v q = fs w q)"

text \<open>Where nothing was left behind, the daemon can run again: the paths are free, and theirs.\<close>

lemma gone_own_paths:
  assumes "own_paths P p sp w" "gone P p sp w v" "bind_decision (fs w sp) \<in> {BindFresh, BindReplace}"
  shows "own_paths P p sp v \<and> claim_decision alive (file_content (fs v p)) = Take \<and>
         bind_decision (fs v sp) = BindFresh"
proof -
  have no_dir: "fs w p \<noteq> Some Dir" "fs w sp \<noteq> Some Dir"
    using assms(1,3) by (auto simp: own_paths_def plain_entry_def)
  have "fs v r = Some Dir" if "r \<in> P" "fs w r = Some Dir" for r
    using that assms(2) no_dir by (cases "r = p \<or> r = sp") (auto simp: gone_def)
  then have "placed P q v" if "placed P q w" for q
    using that by (auto simp: placed_def)
  with assms(1,2) show ?thesis
    by (auto simp: own_paths_def gone_def plain_entry_def claim_decision_def)
qed

lemma shut_down_calm:
  assumes "calm P t" "socket_path (config d) \<in> P" "fs t (socket_path (config d)) = Some (Sock i True)"
  shows "\<exists>v. shut_down d i lr st t = lift_result (in_order [lr, stop_result d st]) v \<and>
             fs v (socket_path (config d)) = None \<and>
             (\<forall>q \<in> P - {socket_path (config d)}. fs v q = fs t q) \<and> calm P v \<and>
             served v = served t"
proof -
  let ?sp = "socket_path (config d)"
  let ?t = "close_listener ?sp i t"
  have c: "calm P ?t" "fs ?t ?sp = Some (Sock i False)" "\<forall>q. q \<noteq> ?sp \<longrightarrow> fs ?t q = fs t q"
    "served ?t = served t"
    using assms by (auto simp: close_listener_def)
  from remove_file_calm [OF c(1) assms(2) c(2)] obtain x where
    x: "remove_file ?sp ?t = Ok () (record_action (AUnlink ?sp) (x\<lparr>fs := (fs x)(?sp := None)\<rparr>))"
    "same P ?t x" by auto
  define v where "v = record_action AStop (record_action (AUnlink ?sp) (x\<lparr>fs := (fs x)(?sp := None)\<rparr>))"
  have "shut_down d i lr st t = lift_result (in_order [lr, stop_result d st]) v"
    using x(1)
    by (cases lr)
      (auto simp: shut_down_def Let_def cleanup_def call_on_stop_def stop_result_def v_def
        split: sum.split)
  moreover have "fs v ?sp = None" "calm P v" using x(2) by (simp_all add: v_def)
  moreover have "served v = served t" using x(2) c(4) by (simp add: v_def same_def)
  moreover have "\<forall>q \<in> P - {?sp}. fs v q = fs t q" using x(2) c(3) by (auto simp: v_def same_fs)
  ultimately show ?thesis by blast
qed

lemma install_calm:
  assumes "calm P w" "\<And>sig v. register_signal L sig v = Inr ()"
  shows "\<exists>v. install_shutdown_flag L w = Ok () v \<and> same P w v"
proof -
  have reg: "\<exists>v. register_flag L sig u = Ok () v \<and> same P u v" if "calm P u" for sig u
    using syscall_calm [OF that, of "\<lambda>w. lift_result (register_signal L sig w) w"] assms(2)
    by (auto simp: register_flag_def)
  obtain u where u: "register_flag L SIGINT (w\<lparr>signalled := False\<rparr>) = Ok () u"
    "same P (w\<lparr>signalled := False\<rparr>) u"
    using reg [of "w\<lparr>signalled := False\<rparr>" SIGINT] assms(1) by auto
  obtain v where v: "register_flag L SIGTERM u = Ok () v" "same P u v"
    using reg [of u SIGTERM] u(2) by auto
  have "same P w v" using u(2) v(2) by (simp add: same_def)
  with u v show ?thesis by (auto simp: install_shutdown_flag_def)
qed

context world_relation
begin

lemma register_flag_R: "ends_in (R w) (register_flag L sig w)"
  unfolding register_flag_def ends_in_map_err by (rule syscall_R) (simp add: R_refl)

lemma install_shutdown_flag_R:
  "ends_in (R (w\<lparr>signalled := False\<rparr>)) (install_shutdown_flag L w)"
  unfolding install_shutdown_flag_def Let_def by (rule seq_R [OF register_flag_R register_flag_R])

lemma claim_pid_file_R: "ends_in (R w) (claim_pid_file L p w)"
  by (auto simp: claim_pid_file_def R_refl intro!: seq_R [OF claim_R] split: option.split)

lemma release_R: "R w (release g w)"
  by (auto simp: release_def R_refl intro: drop_guard_R split: option.split)

lemma call_on_stop_R: "call_on_stop d st w = (r, v) \<Longrightarrow> R w v"
  by (auto simp: call_on_stop_def intro: R_action)

lemma shut_down_R: "ends_in (R w) (shut_down d i lr st w)"
proof -
  let ?w = "close_listener (socket_path (config d)) i w"
  have clean: "R w v" if "final (cleanup (socket_path (config d)) ?w) = Some v" for v
    using cleanup_R [of ?w "socket_path (config d)"] that
    by (auto simp: ends_in_final intro: R_trans [OF close_listener_R])
  then have "R w u" if "final (cleanup (socket_path (config d)) ?w) = Some v"
    "call_on_stop d st v = (r, u)" for r u v
    using that by (blast intro: R_trans call_on_stop_R)
  with clean show ?thesis
    by (cases "cleanup (socket_path (config d)) ?w")
      (auto simp: shut_down_def Let_def split: prod.split)
qed

end

text \<open>Up to the event loop: both files are in place.\<close>

definition in_service :: "path set \<Rightarrow> path \<Rightarrow> path \<Rightarrow> world \<Rightarrow> nat \<Rightarrow> world \<Rightarrow> bool" where
  "in_service P p sp w i u \<longleftrightarrow>
     calm P u \<and> fs u sp = Some (Sock i True) \<and>
     (\<exists>j. fs u p = Some (File j (pid_line (pid_self w)))) \<and> (\<forall>q \<in> P - {p, sp}. fs u q = fs w q)"

lemma start_calm:
  assumes "own_paths P p (socket_path (config d)) w" "pid_file (config d) = Some p"
    and "\<And>q v. pid_alive L q v = alive q" "\<And>sig v. register_signal L sig v = Inr ()"
    and "claim_decision alive (file_content (fs w p)) \<in> {Take, Replace}"
    and "bind_decision (fs w (socket_path (config d))) \<in> {BindFresh, BindReplace}"
  shows "\<exists>c i u.
      and_then (install_shutdown_flag L w) (\<lambda>_. claim_pid_file L (pid_file (config d)))
        = Ok (Some \<lparr>guard_path = p\<rparr>) c \<and>
      bind (socket_path (config d)) (record_action AStart c) = Ok i u \<and>
      in_service P p (socket_path (config d)) w i u \<and> served u = served w \<and>
      pending u = pending w \<and> (sched w = [] \<longrightarrow> sched u = [] \<and> \<not> signalled u \<and> clock u = clock w)"
proof -
  let ?sp = "socket_path (config d)"
  have own: "calm P w" "placed P p w" "placed P ?sp w" "p \<noteq> ?sp" "plain_entry p w"
    "\<forall>q. fs w ?sp \<noteq> Some (Link q)"
    using assms(1) by (auto simp: own_paths_def)
  then have P: "p \<in> P" "?sp \<in> P" by (auto simp: placed_def)
  obtain v where v: "install_shutdown_flag L w = Ok () v" "same P w v"
    using install_calm [OF own(1) assms(4)] by auto
  have at: "calm P v" "placed P p v" "plain_entry p v" "fs v p = fs w p"
    using v(2) own P by (auto simp: placed_same plain_entry_def same_fs)
  obtain c where c: "claim L p v = Ok \<lparr>guard_path = p\<rparr> c" "owns P p v c"
    using claim_calm [OF at(1-3) assms(3)] assms(5) at(4)
    by (auto simp: claim_outcome_def split: claim_verdict.splits)
  let ?c = "record_action AStart c"
  have keep: "\<forall>q \<in> P - {p}. fs ?c q = fs w q" "pid_self ?c = pid_self w" "calm P ?c"
    "fs ?c p = Some (File (next_ino v) (pid_line (pid_self w)))"
    using c(2) v(2) by (auto simp: owns_def same_def)
  have "butlast ?sp \<noteq> p" if "butlast ?sp \<noteq> []"
    using that own(3,5) by (auto simp: placed_def plain_entry_def)
  with own(3) keep(1) have "placed P ?sp ?c" by (auto simp: placed_def)
  moreover have "fs ?c ?sp = fs w ?sp" using keep(1) own(4) P by auto
  ultimately obtain i u where u: "bind ?sp ?c = Ok i u" "listens P ?sp ?c u" "i = next_ino ?c"
    using bind_calm [OF keep(3), of ?sp] own(6) assms(6)
    by (auto simp: bind_outcome_def split: bind_verdict.splits)
  have "in_service P p ?sp w i u"
    using u(2,3) keep own(4) P by (auto simp: in_service_def listens_def)
  moreover have "served u = served w" using u(2) c(2) v(2) by (simp add: listens_def owns_def same_def)
  moreover have "pending u = pending w \<and> (sched w = [] \<longrightarrow> sched u = [] \<and> \<not> signalled u \<and> clock u = clock w)"
    using queue.install_shutdown_flag_R [of w L] queue.claim_R [of v L p] queue.bind_R [of ?c ?sp]
      v(1) c(1) u(1)
    by simp
  ultimately show ?thesis
    using u(1) c(1) v(1) assms(2) by (auto simp: claim_pid_file_def)
qed

text \<open>After the event loop, from a world in service.\<close>

lemma finish_calm:
  assumes "in_service P p (socket_path (config d)) w i u" "keeps P u t" "p \<in> P"
    "socket_path (config d) \<in> P" "p \<noteq> socket_path (config d)"
  shows "\<exists>v. map_state (release (Some \<lparr>guard_path = p\<rparr>)) (shut_down d i lr st t)
           = lift_result (in_order [lr, stop_result d st]) v \<and>
         gone P p (socket_path (config d)) w v \<and> served v = served t \<and> pending v = pending t \<and>
         (sched t = [] \<longrightarrow> clock v = clock t)"
proof -
  let ?sp = "socket_path (config d)"
  have t: "calm P t" "\<forall>q \<in> P. fs t q = fs u q" using assms(2) by (auto simp: keeps_def)
  then have "fs t ?sp = Some (Sock i True)" using assms(1,4) by (auto simp: in_service_def)
  from shut_down_calm [OF t(1) assms(4) this] obtain s where
    s: "shut_down d i lr st t = lift_result (in_order [lr, stop_result d st]) s" "fs s ?sp = None"
    "\<forall>q \<in> P - {?sp}. fs s q = fs t q" "calm P s" "served s = served t" by blast
  obtain j where j: "fs s p = Some (File j (pid_line (pid_self w)))"
    using assms(1,3,5) s(3) t(2) by (auto simp: in_service_def)
  from remove_file_calm [OF s(4) assms(3) j] obtain x where
    x: "remove_file p s = Ok () (record_action (AUnlink p) (x\<lparr>fs := (fs x)(p := None)\<rparr>))" "same P s x"
    by auto
  let ?v = "record_action (AUnlink p) (x\<lparr>fs := (fs x)(p := None)\<rparr>)"
  have rel: "release (Some \<lparr>guard_path = p\<rparr>) s = ?v" using x(1) by (simp add: release_def drop_guard_def)
  have "pending s = pending t \<and> (sched t = [] \<longrightarrow> sched s = [] \<and> clock s = clock t)"
    using queue.shut_down_R [of t d i lr st] s(1)
    by (cases "in_order [lr, stop_result d st]") auto
  moreover have "pending ?v = pending s \<and> (sched s = [] \<longrightarrow> clock ?v = clock s)" using queue.release_R [where w = s and g = "Some \<lparr>guard_path = p\<rparr>"] rel by simp
  moreover have "served ?v = served t" using s(5) x(2) by (simp add: same_def)
  moreover have "gone P p ?sp w ?v"
    using assms(1,4) s(2,3) t(2) x(2) by (auto simp: gone_def in_service_def same_fs)
  ultimately show ?thesis
    using s(1) rel by (intro exI [of _ ?v], cases "in_order [lr, stop_result d st]") simp_all
qed

lemma event_loop_keeps:
  assumes "poll_contract L" "calm P u" "final (run_event_loop d L st u) = Some (st1, t)"
  shows "keeps P u t"
proof -
  have e: "calm P (snd (enter u))" "keeps P u (snd (enter u))"
    using kept.R_enter [of P u] assms(2) by (auto simp: keeps_def)
  from assms(3) obtain r where r: "event_loop d L (clock (snd (enter u))) st (snd (enter u)) = Some r"
    "final r = Some (st1, t)"
    by (cases "event_loop d L (clock (snd (enter u))) st (snd (enter u))")
      (auto simp: run_event_loop_def Let_def)
  have "keeps P (snd (enter u)) t"
    using kept.event_run_R [OF assms(1) event_loop_run [OF r(1)], of P] r(2) e(1)
    by (auto simp: ends_in_final)
  with e(2) show ?thesis by (simp add: keeps_def)
qed

text \<open>The run as a whole: start, serve, finish. The connections it takes are those of its event loop,
  which finds the queue as it was before the run.\<close>

fun loop_result :: "error + connection_outcome \<Rightarrow> error + unit" where
  "loop_result (Inl e) = Inl e"
| "loop_result (Inr _) = Inr ()"

lemma run_calm_transcript:
  assumes "own_paths P p (socket_path (config d)) w" "pid_file (config d) = Some p"
    and "\<And>q v. pid_alive L q v = alive q" "\<And>sig v. register_signal L sig v = Inr ()"
    and "claim_decision alive (file_content (fs w p)) \<in> {Take, Replace}"
    and "bind_decision (fs w (socket_path (config d))) \<in> {BindFresh, BindReplace}"
    and "poll_contract L" "on_start d = Inr st"
  shows "\<exists>i u. in_service P p (socket_path (config d)) w i u \<and> pending u = pending w \<and>
     served u = served w \<and> (sched w = [] \<longrightarrow> sched u = [] \<and> \<not> signalled u \<and> clock u = clock w) \<and>
     (\<forall>st1 t. final (run_event_loop d L st u) = Some (st1, t) \<longrightarrow>
       (\<exists>oc v. transcript d st u oc st1 t \<and> gone P p (socket_path (config d)) w v \<and>
          served v = served t \<and> pending v = pending t \<and> (sched t = [] \<longrightarrow> clock v = clock t) \<and>
          (loop_result oc = (case run_event_loop d L st u of Err e _ \<Rightarrow> Inl e | _ \<Rightarrow> Inr ())) \<and>
          run d L w = lift_result (in_order [loop_result oc, stop_result d st1]) v)) \<and>
     (run_event_loop d L st u = Hang \<longrightarrow> run d L w = Hang)"
proof -
  let ?sp = "socket_path (config d)"
  from start_calm [OF assms(1-6)] obtain c i u where
    s: "and_then (install_shutdown_flag L w) (\<lambda>_. claim_pid_file L (pid_file (config d)))
        = Ok (Some \<lparr>guard_path = p\<rparr>) c"
    "bind ?sp (record_action AStart c) = Ok i u" "in_service P p ?sp w i u"
    "served u = served w" "pending u = pending w"
    "sched w = [] \<longrightarrow> sched u = [] \<and> \<not> signalled u \<and> clock u = clock w" by blast
  then have run: "run d L w = map_state (release (Some \<lparr>guard_path = p\<rparr>)) (serve d L c)"
    by (auto simp: run_def and_then_Ok_iff)
  have calm: "calm P u" using s(3) by (simp add: in_service_def)
  have P: "p \<in> P" "?sp \<in> P" "p \<noteq> ?sp" using assms(1) by (auto simp: own_paths_def placed_def)
  note finish = finish_calm [OF s(3) event_loop_keeps [OF assms(7) calm] P]
  let ?r = "run_event_loop d L st u"
  have ends: "\<exists>oc v. transcript d st u oc st1 t \<and> gone P p ?sp w v \<and>
      served v = served t \<and> pending v = pending t \<and> (sched t = [] \<longrightarrow> clock v = clock t) \<and>
      loop_result oc = (case ?r of Err e _ \<Rightarrow> Inl e | _ \<Rightarrow> Inr ()) \<and>
      run d L w = lift_result (in_order [loop_result oc, stop_result d st1]) v"
    if fin: "final ?r = Some (st1, t)" for st1 t
  proof -
    from fin obtain r where r: "event_loop d L (clock (snd (enter u))) st (snd (enter u)) = Some r" "?r = r"
      by (cases "event_loop d L (clock (snd (enter u))) st (snd (enter u))")
        (auto simp: run_event_loop_def Let_def)
    have ended: "ended d st (snd (enter u)) r"
      by (rule event_run_ended [OF assms(7) event_loop_run [OF r(1)]])
    have same: "transcript d st (snd (enter u)) oc st1 t \<longleftrightarrow> transcript d st u oc st1 t" for oc
      by (simp add: transcript_def enter_frame)
    show ?thesis
    proof (cases r)
      case (Ok x sw)
      with fin r(2) have sw: "sw = (st1, t)" by simp
      with ended Ok same obtain out where "transcript d st u (Inr out) st1 t" by auto
      moreover from finish [OF fin, of "Inr ()" st1] obtain v where
        "map_state (release (Some \<lparr>guard_path = p\<rparr>)) (shut_down d i (Inr ()) st1 t)
           = lift_result (in_order [Inr (), stop_result d st1]) v" "gone P p ?sp w v"
        "served v = served t" "pending v = pending t" "sched t = [] \<longrightarrow> clock v = clock t" by auto
      ultimately show ?thesis
        using run s(2) assms(8) Ok sw r(2)
        by (intro exI [of _ "Inr out"] exI [of _ v]) (simp add: serve_def)
    next
      case (Err e sw)
      with fin r(2) have sw: "sw = (st1, t)" by simp
      with ended Err same have "transcript d st u (Inl e) st1 t" by auto
      moreover from finish [OF fin, of "Inl e" st1] obtain v where
        "map_state (release (Some \<lparr>guard_path = p\<rparr>)) (shut_down d i (Inl e) st1 t)
           = lift_result (in_order [Inl e, stop_result d st1]) v" "gone P p ?sp w v"
        "served v = served t" "pending v = pending t" "sched t = [] \<longrightarrow> clock v = clock t" by blast
      ultimately show ?thesis
        using run s(2) assms(8) Err sw r(2)
        by (intro exI [of _ "Inl e"] exI [of _ v]) (simp add: serve_def)
    qed (use ended in auto)
  qed
  have "?r = Hang \<longrightarrow> run d L w = Hang" using run s(2) assms(8) by (auto simp: serve_def)
  with ends s(3-6) show ?thesis by blast
qed

lemma run_calm:
  assumes "own_paths P p (socket_path (config d)) w" "pid_file (config d) = Some p"
    and "\<And>q v. pid_alive L q v = alive q" "\<And>sig v. register_signal L sig v = Inr ()"
    and "claim_decision alive (file_content (fs w p)) \<in> {Take, Replace}"
    and "bind_decision (fs w (socket_path (config d))) \<in> {BindFresh, BindReplace}"
    and "poll_contract L" "on_start d = Inr st"
  shows "\<exists>i u. in_service P p (socket_path (config d)) w i u \<and>
     (case run_event_loop d L st u of
        Ok _ (st1, t) \<Rightarrow>
          \<exists>v. run d L w = lift_result (stop_result d st1) v \<and> gone P p (socket_path (config d)) w v
      | Err e _ \<Rightarrow> \<exists>v. run d L w = Err e v \<and> gone P p (socket_path (config d)) w v
      | Panic _ \<Rightarrow> False
      | Hang \<Rightarrow> run d L w = Hang)"
proof -
  from run_calm_transcript [OF assms] obtain i u where
    u: "in_service P p (socket_path (config d)) w i u" and
    fin: "\<And>st1 t. final (run_event_loop d L st u) = Some (st1, t) \<Longrightarrow>
       \<exists>oc v. gone P p (socket_path (config d)) w v \<and>
          loop_result oc = (case run_event_loop d L st u of Err e _ \<Rightarrow> Inl e | _ \<Rightarrow> Inr ()) \<and>
          run d L w = lift_result (in_order [loop_result oc, stop_result d st1]) v" and
    hang: "run_event_loop d L st u = Hang \<longrightarrow> run d L w = Hang"
    by blast
  show ?thesis
  proof (intro exI conjI, rule u, cases "run_event_loop d L st u")
    case (Ok x sw)
    obtain st1 t where sw: "sw = (st1, t)" by (cases sw)
    from fin [of st1 t] Ok sw show
      "case run_event_loop d L st u of
        Ok _ (st1, t) \<Rightarrow> \<exists>v. run d L w = lift_result (stop_result d st1) v \<and> gone P p (socket_path (config d)) w v
      | Err e _ \<Rightarrow> \<exists>v. run d L w = Err e v \<and> gone P p (socket_path (config d)) w v
      | Panic _ \<Rightarrow> False | Hang \<Rightarrow> run d L w = Hang"
      by (cases "stop_result d st1") auto
  next
    case (Err e sw)
    obtain st1 t where sw: "sw = (st1, t)" by (cases sw)
    from fin [of st1 t] Err sw show
      "case run_event_loop d L st u of
        Ok _ (st1, t) \<Rightarrow> \<exists>v. run d L w = lift_result (stop_result d st1) v \<and> gone P p (socket_path (config d)) w v
      | Err e _ \<Rightarrow> \<exists>v. run d L w = Err e v \<and> gone P p (socket_path (config d)) w v
      | Panic _ \<Rightarrow> False | Hang \<Rightarrow> run d L w = Hang"
      by auto
  qed (use hang event_loop_log [OF assms(7), of u d st] in auto)
qed

lemma run_calm_final:
  assumes "own_paths P p (socket_path (config d)) w" "pid_file (config d) = Some p"
    and "\<And>q v. pid_alive L q v = alive q" "\<And>sig v. register_signal L sig v = Inr ()"
    and "claim_decision alive (file_content (fs w p)) \<in> {Take, Replace}"
    and "bind_decision (fs w (socket_path (config d))) \<in> {BindFresh, BindReplace}"
    and "poll_contract L" "on_start d = Inr st" "final (run d L w) = Some v"
  shows "gone P p (socket_path (config d)) w v"
proof -
  obtain u where "case run_event_loop d L st u of
        Ok _ (st1, t) \<Rightarrow>
          \<exists>v. run d L w = lift_result (stop_result d st1) v \<and> gone P p (socket_path (config d)) w v
      | Err e _ \<Rightarrow> \<exists>v. run d L w = Err e v \<and> gone P p (socket_path (config d)) w v
      | Panic _ \<Rightarrow> False
      | Hang \<Rightarrow> run d L w = Hang"
    using run_calm [OF assms(1-8)] by blast
  moreover have "final (lift_result r x) = Some x" for r :: "error + unit" and x :: world
    by (cases r) simp_all
  ultimately show ?thesis using assms(9) by (auto split: run.splits prod.splits)
qed

section \<open>A run ends when its clients do\<close>

lemma install_arrive: "ends_in (\<lambda>v. set (pending v) \<subseteq> set (pending w)) (install_shutdown_flag L w)"
proof -
  have flag: "ends_in (\<lambda>v. set (pending v) \<subseteq> set (pending u)) (register_flag L sig u)" for sig u
    unfolding register_flag_def ends_in_map_err by (rule arrive.syscall_R) simp
  show ?thesis
    using arrive.seq_R [OF flag [of "w\<lparr>signalled := False\<rparr>" SIGINT], of "\<lambda>_. register_flag L SIGTERM"]
      flag
    by (simp add: install_shutdown_flag_def Let_def)
qed

lemma shut_down_returns: "shut_down d i lr st w \<noteq> Hang"
proof -
  have "cleanup p v \<noteq> Hang" for p and v :: world
    using settled_calls(7) [of p v] by (cases "remove_file p v") (auto simp: cleanup_def)
  then show ?thesis
    by (auto simp: shut_down_def Let_def run_iffs split: run.split prod.split)
qed

lemma serve_returns:
  assumes "poll_contract L" "\<forall>s \<in> set (pending w). finite_peer s"
  shows "serve d L w \<noteq> Hang"
proof (cases "on_start d")
  case (Inr st)
  let ?w = "record_action AStart w"
  show ?thesis
  proof (cases "bind (socket_path (config d)) ?w")
    case (Ok i u)
    then have "set (pending u) \<subseteq> set (pending w)"
      using arrive.bind_R [of ?w "socket_path (config d)"] by simp
    with assms(2) have "\<forall>s \<in> set (pending (snd (enter u))). finite_peer s" by auto
    from event_loop_returns [OF assms(1) this, of d "clock (snd (enter u))" st] obtain r where
      r: "event_loop d L (clock (snd (enter u))) st (snd (enter u)) = Some r" by blast
    then have "run_event_loop d L st u = r" by (simp add: run_event_loop_def Let_def)
    moreover have "r \<noteq> Hang"
      using event_run_ended [OF assms(1) event_loop_run [OF r]] by auto
    ultimately show ?thesis
      using Inr Ok by (cases r) (auto simp: serve_def shut_down_returns)
  qed (use Inr bind_acts_log [of "socket_path (config d)" ?w] in
      \<open>auto simp: serve_def split: prod.split sum.split\<close>)
qed (simp add: serve_def)

lemma run_returns:
  assumes "poll_contract L" "\<forall>s \<in> set (pending w). finite_peer s"
  shows "run d L w \<noteq> Hang"
proof (cases "install_shutdown_flag L w")
  case (Ok x u)
  then have u: "set (pending u) \<subseteq> set (pending w)" using install_arrive [of w L] by simp
  show ?thesis
  proof (cases "claim_pid_file L (pid_file (config d)) u")
    case c: (Ok g v)
    have "set (pending v) \<subseteq> set (pending u)"
    proof (cases "pid_file (config d)")
      case (Some p)
      with c arrive.claim_R [of u L p] show ?thesis
        by (simp add: claim_pid_file_def run_iffs) (metis ends_in.simps(1))
    qed (use c in \<open>simp add: claim_pid_file_def\<close>)
    with u assms(2) have "\<forall>s \<in> set (pending v). finite_peer s" by auto
    from serve_returns [OF assms(1) this] Ok c show ?thesis
      by (simp add: run_def run_iffs)
  qed (use Ok claim_pid_file_log [of "pid_file (config d)" u L] in \<open>auto simp: run_def\<close>)
qed (use install_shutdown_flag_log [of w L] in \<open>auto simp: run_def\<close>)

end
