(* ===== verification/Daemon_Properties.thy ===== *)
theory Daemon_Properties imports Daemon_Run begin

text \<open>
  The properties of \<^verbatim>\<open>src/daemon.rs\<close>, each with a witness on a small echo daemon.
\<close>

section \<open>A daemon for the witnesses\<close>

definition demo_config :: daemon_config where
  "demo_config =
     \<lparr>socket_path = demo_sock_path, pid_file = Some demo_pid_path, idle_timeout = from_secs 1,
      poll_interval = from_millis 10, max_payload_len = 1024\<rparr>"

text \<open>It answers a request with its payload and counts the requests.\<close>

definition echo_daemon :: "nat daemon" where
  "echo_daemon =
     \<lparr>config = demo_config, on_start = Inr 0, on_request = (\<lambda>n req. (Inr req, Suc n)),
      on_stop = (\<lambda>_. Inr ())\<rparr>"

lemma echo_daemon_sel [simp]:
  "socket_path (config echo_daemon) = demo_sock_path"
  "pid_file (config echo_daemon) = Some demo_pid_path"
  "idle_timeout (config echo_daemon) = 1000000000"
  "max_payload_len (config echo_daemon) = 1024"
  "on_start echo_daemon = Inr 0" "on_stop echo_daemon = (\<lambda>_. Inr ())"
  "on_request echo_daemon = (\<lambda>n req. (Inr req, Suc n))"
  by (simp_all add: echo_daemon_def demo_config_def from_secs_def)

definition request_stream :: "bytes \<Rightarrow> stream" where
  "request_stream pl = demo_stream [Chunk (frame_bytes KRequest 0 pl)]"

section \<open>Building\<close>

text \<open>Building a daemon succeeds exactly when a request handler was set after the last
  \<^verbatim>\<open>on_start\<close>: \<^verbatim>\<open>on_start\<close> changes the state type and silently discards a handler and a stop
  callback set before it, while the configuration set before it is kept.\<close>

theorem build_needs_handler_after_start:
  "build (builder_on_start start (builder_on_request g (builder_on_stop h b)))
     = Inl (MissingCallback (s2b ''on_request'')) \<and>
   build (builder_on_request f (builder_on_start start (builder_on_stop h (builder_socket p b))))
     = Inr \<lparr>config = (b_config b)\<lparr>socket_path := p\<rparr>, on_start = start, on_request = f,
            on_stop = (\<lambda>_. Inr ())\<rparr>"
  by (simp add: build_def builder_on_start_def builder_on_request_def builder_on_stop_def
      builder_socket_def)

section \<open>One connection\<close>

text \<open>Request and reply: for a connection that delivers a complete frame, in any chunking, and
  takes the reply, the daemon sends back exactly one frame, the answer to that frame, and goes on
  unless it was a shutdown. A request's payload is handed to the handler unchanged, and only a
  request changes the application's state.\<close>

theorem connection_answered:
  assumes "clean (inbox s)" "unread s = frame_bytes k fl pl @ rest"
    and "length pl \<le> max_payload_len (config d)" "length pl < 2 ^ 32"
    and "room s = []" "flush_result s = None"
    and "answer d st \<lparr>kind = k, flags = fl, payload = pl\<rparr> = (rk, reply, out, st1)"
    and "length reply < 2 ^ 32"
  shows "\<exists>s1. process_connection d s st = Ok out (st1, s1) \<and>
              outbox s1 = outbox s @ frame_bytes rk 0 reply \<and> unread s1 = rest"
proof -
  obtain s1 where s1: "read_frame (max_payload_len (config d)) s
      = Ok \<lparr>kind = k, flags = fl, payload = pl\<rparr> s1" "unread s1 = rest"
    using read_frame_bytes [OF assms(1-4)] by blast
  from read_frame_final [of "max_payload_len (config d)" s s1] s1(1) assms(5,6)
  have "room s1 = []" "flush_result s1 = None" "outbox s1 = outbox s" by auto
  with write_frame_ready [of s1 reply rk] s1 assms(7,8) show ?thesis
    by (simp add: process_connection_answer)
qed

theorem connection_answered_witness:
  "\<exists>s1. process_connection echo_daemon (request_stream [1, 2, 3]) 4 = Ok Continue (5, s1) \<and>
        outbox s1 = frame_bytes KResponse 0 [1, 2, 3]"
proof -
  have a: "answer echo_daemon 4 \<lparr>kind = KRequest, flags = 0, payload = [1, 2, 3]\<rparr>
      = (KResponse, [1, 2, 3], Continue, 5)"
    by (simp add: answer_def)
  show ?thesis
    using connection_answered [OF _ _ _ _ _ _ a, of "request_stream [1, 2, 3]" "[]"]
    by (auto simp: request_stream_def)
qed

text \<open>C18: At most one reply, and never a wrong one: whatever the peer sends, however it stalls, and
  whatever fails, when the handling of a connection returns, either no frame was read, nothing was
  written and the application's state is unchanged, or one frame was read, the application moved by
  exactly that frame's answer, and what was written is a prefix of that answer's encoding, the
  whole of it if the handling succeeded.\<close>

theorem connection_one_reply:
  assumes "final (process_connection d s st) = Some (st1, s1)"
  shows "case read_frame (max_payload_len (config d)) s of
     Ok f r \<Rightarrow>
       (case answer d st f of
          (k, reply, out, st2) \<Rightarrow>
            st1 = st2 \<and>
            (\<exists>j. outbox s1 = outbox s @ take j (frame_bytes k 0 reply) \<and>
                 (\<forall>o' x. process_connection d s st = Ok o' x \<longrightarrow>
                    o' = out \<and> length (frame_bytes k 0 reply) \<le> j)))
   | Err e r \<Rightarrow> process_connection d s st = Err e (st, r) \<and> s1 = r \<and> outbox s1 = outbox s
   | _ \<Rightarrow> False"
  using assms by (rule process_connection_final)

lemma empty_connection:
  assumes "inbox s = []" "peer_closed s"
  shows "process_connection d s st = Err (Io eof_error) (st, s)"
proof -
  have "s\<lparr>inbox := []\<rparr> = s" using assms(1) by simp
  with assms show ?thesis
    by (simp add: process_connection_answer read_frame_def read_exact_def HEADER_LEN_def)
qed

theorem connection_one_reply_witness:
  "process_connection echo_daemon (demo_stream []) 3 = Err (Io eof_error) (3, demo_stream []) \<and>
   outbox (demo_stream []) = []"
proof -
  have p: "process_connection echo_daemon (demo_stream []) 3 = Err (Io eof_error) (3, demo_stream [])"
    by (rule empty_connection) simp_all
  have r: "read_frame 1024 (demo_stream []) = Err (Io eof_error) (demo_stream [])"
    by (simp add: read_frame_def read_exact_def HEADER_LEN_def demo_stream_def)
  from connection_one_reply [of echo_daemon "demo_stream []" 3 3 "demo_stream []"] p r
  show ?thesis by simp
qed

section \<open>The event loop\<close>

text \<open>C6: First come, first served: when the event loop returns, the connections it took are exactly
  the first ones in order of arrival, each was handled once, on the state the one before it left,
  and its stream was closed; the rest are untouched. On success every handled connection was
  answered, and on an error the error is that of the last connection taken or of a system call. The
  loop never panics.\<close>

theorem event_loop_serves_in_order:
  assumes "poll_contract L" "event_loop d L t st w = Some r"
  shows "case r of
     Ok _ (st1, v) \<Rightarrow> \<exists>out ss done_ss. pending w = ss @ pending v \<and> served v = served w @ done_ss \<and>
                     conversation d st ss (Inr out) st1 done_ss
   | Err e (st1, v) \<Rightarrow> \<exists>ss done_ss. pending w = ss @ pending v \<and> served v = served w @ done_ss \<and>
                     conversation d st ss (Inl e) st1 done_ss
   | _ \<Rightarrow> False"
  using event_run_ended [OF assms(1) event_loop_run [OF assms(2)]]
  by (cases "(d, st, w, r)" rule: ended.cases) (auto simp: transcript_def)

definition demo_queue :: "stream list \<Rightarrow> world" where
  "demo_queue ss = (base_world [[s2b ''tmp''] \<mapsto> Dir])\<lparr>backlog := ss\<rparr>"

lemma demo_queue_sel [simp]:
  "pending (demo_queue ss) = ss" "served (demo_queue ss) = []" "clock (demo_queue ss) = 0"
  "\<not> signalled (demo_queue ss)" "sched (demo_queue ss) = []" "backlog (demo_queue ss) = ss"
  by (simp_all add: demo_queue_def pending_def)

lemma demo_peers: "finite_peer (demo_stream evs)" "finite_peer (request_stream pl)"
  by (simp_all add: finite_peer_def request_stream_def)

lemma demo_loop_returns:
  "\<exists>r. event_loop echo_daemon quiet_libc 0 0 (demo_queue [request_stream [1], demo_stream []]) = Some r"
  by (rule event_loop_returns [OF model_poll.poll_contract_axioms]) (simp add: demo_peers)

theorem event_loop_serves_in_order_witness:
  "\<exists>r. event_loop echo_daemon quiet_libc 0 0 (demo_queue [request_stream [1], demo_stream []]) = Some r \<and>
     (case r of
        Ok _ (st1, v) \<Rightarrow> \<exists>ss. [request_stream [1], demo_stream []] = ss @ pending v
      | Err e (st1, v) \<Rightarrow> \<exists>ss. [request_stream [1], demo_stream []] = ss @ pending v
      | _ \<Rightarrow> False)"
proof -
  let ?w = "demo_queue [request_stream [1], demo_stream []]"
  obtain r where r: "event_loop echo_daemon quiet_libc 0 0 ?w = Some r"
    using demo_loop_returns by blast
  from event_loop_serves_in_order [OF model_poll.poll_contract_axioms r] r show ?thesis
    by (intro exI [of _ r]) (auto split: run.splits)
qed


lemma signalled_loop:
  assumes "signalled w"
  shows "event_loop d L t st w = Some (Ok () (st, w))"
  using assms by (subst event_loop.simps) simp


text \<open>The event loop ends: if every client that has connected or will connect sooner or later
  closes and does not stop reading, the loop returns, because a daemon that serves nobody reaches
  its idle timeout.\<close>

theorem event_loop_terminates:
  assumes "poll_contract L" "\<forall>s \<in> set (pending w). finite_peer s"
  shows "\<exists>r. event_loop d L t st w = Some r"
  using assms by (rule event_loop_returns)

theorem event_loop_terminates_witness:
  "\<exists>r. event_loop echo_daemon quiet_libc 0 7 (demo_queue [request_stream [5]]) = Some r"
proof -
  have "\<forall>s \<in> set (pending (demo_queue [request_stream [5]])). finite_peer s"
    by (simp add: demo_peers)
  from event_loop_terminates [OF model_poll.poll_contract_axioms this] show ?thesis .
qed

section \<open>A connection that fails\<close>

lemma backlog_enter: "\<exists>xs. backlog (snd (enter w)) = backlog w @ xs"
  by (auto simp: enter_def backlog_fold_events split: list.split)

lemma pending_hd: "backlog w \<noteq> [] \<Longrightarrow> hd (pending w) = hd (backlog w)"
  by (simp add: pending_def)

lemma accept_calm:
  assumes "calm P w" "backlog w \<noteq> []"
  shows "\<exists>v. accept w = Ok (hd (pending w)) v \<and> calm P v"
proof -
  obtain v where v: "enter w = (None, v)" "same P w v" using enter_calm [OF assms(1)] by auto
  obtain xs where xs: "backlog v = backlog w @ xs" using backlog_enter [of w] v(1) by auto
  with assms(2) have "backlog v \<noteq> []" by simp
  then obtain s rest where b: "backlog v = s # rest" by (cases "backlog v") auto
  then have "s = hd (pending w)" using xs assms(2) pending_hd [of w] by (metis hd_append2 list.sel(1))
  with v b show ?thesis by (auto simp: accept_def syscall_def)
qed

text \<open>The first waiting connection of a calm world is polled, accepted and handled.\<close>

lemma first_connection:
  assumes "poll_contract L" "calm P w" "backlog w = s # rest"
    and "\<not> signalled w" "clock (snd (enter w)) - t < idle_timeout (config d)"
    and "process_connection d s st = Err e (st1, s1)"
  shows "\<exists>v. event_loop d L t st w = Some (Err e (st1, v)) \<and> served v = served w @ [s1] \<and>
             pending w = s # pending v"
proof -
  let ?u = "snd (enter w)"
  have u: "calm P ?u" "backlog ?u \<noteq> []" "hd (pending ?u) = s"
    using enter_calm [OF assms(2)] backlog_enter [of w] assms(3) pending_hd [of w]
    by auto
  obtain rc revents err v where p: "poll1 L (poll_timeout_ms (wait_time d t ?u)) ?u = (rc, revents, err, v)"
    by (metis prod_cases4)
  have ready: "poll_ready (rc, revents, err, v)"
    using poll_contract.poll_reports [OF assms(1) u(2)] p by metis
  have v: "env_step ?u v" "backlog v \<noteq> []"
    using poll_contract.poll_env [OF assms(1) p] poll_contract.poll_accepts [OF assms(1) _ p]
      ready p by auto
  then have cv: "calm P v" "hd (pending v) = s"
    using env_step_same [OF u(1) v(1)] pending_env_step [OF v(1)] u(3) by auto
  from accept_calm [OF cv(1) v(2)] cv(2) obtain x where x: "accept v = Ok s x" "calm P x" by auto
  from set_nonblocking_calm [OF x(2)] obtain y where y: "set_nonblocking x = Ok () y" by auto
  let ?z = "close_stream s1 (snd (enter y))"
  have loop: "accept_loop d t st v = Some (Err e (st1, ?z))"
    using x(1) y assms(6) by (subst accept_loop.simps) simp
  have "poll_listener L (wait_time d t ?u) ?u = Ok True v"
    using p ready by (simp add: poll_listener_def poll_ready_def)
  with loop assms(4,5) have ev: "event_loop d L t st w = Some (Err e (st1, ?z))"
    by (subst event_loop.simps) (auto simp: Let_def)
  have "accept_run d t st v (Err e (st1, ?z))" using accept_loop_run [OF loop] .
  have "pending v = s # pending (snd (enter y))" "served (snd (enter y)) = served v"
    using accept_next_transcript [OF x(1) y, of "fst (enter y)" "snd (enter y)"] by simp_all
  moreover have "pending v = pending w" "served v = served w"
    using pending_env_step [OF v(1)] env_step_served [OF v(1)] by (simp_all add: enter_frame)
  ultimately have "served ?z = served w @ [s1]" "pending w = s # pending ?z"
    by (simp_all add: close_stream_def)
  with ev show ?thesis by blast
qed

text \<open>C20: One connection that sends nothing ends the daemon: when a client connects and closes without
  sending a frame, as the liveness probe of \<^verbatim>\<open>socket::bind\<close> does, the event loop returns
  \<^verbatim>\<open>UnexpectedEof\<close>, nothing is sent, the application's state is untouched, and the connections
  behind it are never served.\<close>

theorem empty_connection_ends_loop:
  assumes "poll_contract L" "calm P w" "backlog w = s # rest" "inbox s = []" "peer_closed s"
    and "\<not> signalled w" "clock (snd (enter w)) - t < idle_timeout (config d)"
  shows "\<exists>v. event_loop d L t st w = Some (Err (Io eof_error) (st, v)) \<and>
             served v = served w @ [s] \<and> pending w = s # pending v"
  using first_connection [OF assms(1-3,6,7) empty_connection [OF assms(4,5)]] .

theorem empty_connection_ends_loop_witness:
  "\<exists>v. event_loop echo_daemon quiet_libc 0 3 (demo_queue [demo_stream [], request_stream [1]])
         = Some (Err (Io eof_error) (3, v)) \<and> pending v = [request_stream [1]]"
proof -
  let ?w = "demo_queue [demo_stream [], request_stream [1]]"
  have "calm {} ?w" "clock (snd (enter ?w)) - 0 < idle_timeout (config echo_daemon)"
    by (simp_all add: enter_def)
  from empty_connection_ends_loop [OF model_poll.poll_contract_axioms [of "\<lambda>_. False"] this(1), where d = echo_daemon
      and s = "demo_stream []" and rest = "[request_stream [1]]" and t = 0 and st = 3] this(2)
  show ?thesis by auto
qed



section \<open>Waiting\<close>

text \<open>The timeout handed to \<^verbatim>\<open>poll\<close> is never negative, so \<^verbatim>\<open>poll\<close> never waits for ever; it is the
  duration in whole milliseconds, rounded down, or \<^verbatim>\<open>i32::MAX\<close> if that is less, so the daemon never
  sleeps past its idle deadline.\<close>

theorem poll_timeout_bounds:
  "0 \<le> sint (poll_timeout_ms t) \<and>
   nat (sint (poll_timeout_ms t)) = min (t div 1000000) (2 ^ 31 - 1) \<and>
   nat (sint (poll_timeout_ms t)) * 1000000 \<le> t"
proof -
  let ?m = "min (t div 1000000) I32_MAX"
  have m: "int ?m < 2 ^ 31" by (simp add: I32_MAX_def)
  have "sint (poll_timeout_ms t) = signed_take_bit 31 (int ?m)"
    by (simp add: poll_timeout_ms_def signed_of_nat)
  also have "\<dots> = int ?m"
    using m by (intro signed_take_bit_int_eq_self) auto
  finally have "sint (poll_timeout_ms t) = int ?m" .
  then show ?thesis by (auto simp: I32_MAX_def min_def)
qed

section \<open>The whole run\<close>

text \<open>C2: The order of a run, whatever other processes do and whichever system calls fail: a run that
  returns success claimed the PID file, started the application, bound the socket, closed it,
  removed the socket file, stopped the application and removed the PID file, in this order. A run
  that returns an error did the same or stopped at an earlier stage, and the stages it had entered
  are undone: \<^verbatim>\<open>on_stop\<close> runs exactly once if and only if \<^verbatim>\<open>on_start\<close> gave a state, a bound socket is
  closed, and the PID file is released if it was claimed. A run never panics.\<close>

theorem run_lifecycle:
  assumes "poll_contract L"
  shows "partly (\<lambda>_ v. \<exists>acts. trace v = trace w @ acts \<and> completed_run (config d) acts)
           (\<lambda>_ v. \<exists>acts. trace v = trace w @ acts \<and>
                   (completed_run (config d) acts \<or> aborted_run (config d) acts)) (run d L w)"
  using assms by (rule run_log)

theorem run_lifecycle_witness:
  "partly (\<lambda>_ v. \<exists>acts. trace v = acts \<and> completed_run demo_config acts)
     (\<lambda>_ v. \<exists>acts. trace v = acts \<and> (completed_run demo_config acts \<or> aborted_run demo_config acts))
     (run echo_daemon quiet_libc (demo_queue [request_stream [1]]))"
proof -
  have "trace (demo_queue [request_stream [1]]) = []" "config echo_daemon = demo_config"
    by (simp_all add: demo_queue_def echo_daemon_def)
  with run_lifecycle [OF model_poll.poll_contract_axioms, where d = echo_daemon and w = "demo_queue [request_stream [1]]"]
  show ?thesis by simp
qed

text \<open>C1: A run leaves nothing behind: a daemon whose paths nobody else touches, and which may take its PID
  file and its socket path, serves with both files in place, and when its event loop returns, with
  success or with an error, both files are gone and every other path is as it was. Its result is
  the loop's error, if any, else what \<^verbatim>\<open>on_stop\<close> said; it fails to return only if the loop does.\<close>

theorem run_cleans_up:
  assumes "own_paths P p (socket_path (config d)) w" "pid_file (config d) = Some p"
    and "\<And>q v. pid_alive L q v = alive q" "\<And>sig v. register_signal L sig v = Inr ()"
    and "claim_decision alive (file_content (fs w p)) \<in> {Take, Replace}"
    and "bind_decision (fs w (socket_path (config d))) \<in> {BindFresh, BindReplace}"
    and "poll_contract L" "on_start d = Inr st"
  shows "\<exists>i u. in_service P p (socket_path (config d)) w i u \<and>
     (case run_event_loop d L st u of
        Ok _ (st1, t) \<Rightarrow>
          \<exists>v. run d L w = lift_result (stop_result d st1) v \<and> gone P p (socket_path (config d)) w v
      | Err e _ \<Rightarrow> \<exists>v. run d L w = Err e v \<and> gone P p (socket_path (config d)) w v
      | Panic _ \<Rightarrow> False
      | Hang \<Rightarrow> run d L w = Hang)"
  using assms by (rule run_calm)

lemma demo_own_paths:
  "own_paths (demo_paths \<union> demo_sock_paths) demo_pid_path (socket_path (config echo_daemon)) (demo_queue ss)"
  by (simp add: own_paths_def placed_def plain_entry_def demo_queue_def demo_pid_path_def
      demo_sock_path_def s2b_def)

lemma demo_may_start:
  "claim_decision alive (file_content (fs (demo_queue ss) demo_pid_path)) \<in> {Take, Replace}"
  "bind_decision (fs (demo_queue ss) (socket_path (config echo_daemon))) \<in> {BindFresh, BindReplace}"
  "register_signal quiet_libc sig v = Inr ()"
  by (simp_all add: demo_queue_def claim_decision_def demo_pid_path_def demo_sock_path_def model_libc_def)

theorem run_cleans_up_witness:
  "\<exists>i u. in_service (demo_paths \<union> demo_sock_paths) demo_pid_path demo_sock_path (demo_queue []) i u \<and>
     (case run_event_loop echo_daemon quiet_libc 0 u of
        Ok _ _ \<Rightarrow> \<exists>v. run echo_daemon quiet_libc (demo_queue []) = Ok () v \<and>
                      fs v demo_pid_path = None \<and> fs v demo_sock_path = None
      | Err e _ \<Rightarrow> \<exists>v. run echo_daemon quiet_libc (demo_queue []) = Err e v \<and>
                      fs v demo_pid_path = None \<and> fs v demo_sock_path = None
      | Panic _ \<Rightarrow> False
      | Hang \<Rightarrow> run echo_daemon quiet_libc (demo_queue []) = Hang)"
proof -
  let ?P = "demo_paths \<union> demo_sock_paths"
  from run_cleans_up [OF demo_own_paths echo_daemon_sel(2) model_alive demo_may_start(3,1,2) model_poll.poll_contract_axioms
      echo_daemon_sel(5), unfolded echo_daemon_sel(1)]
  obtain i u where
    iu: "in_service ?P demo_pid_path demo_sock_path (demo_queue []) i u" and
    end_run: "case run_event_loop echo_daemon quiet_libc 0 u of
        Ok _ (st1, t) \<Rightarrow> \<exists>v. run echo_daemon quiet_libc (demo_queue [])
            = lift_result (stop_result echo_daemon st1) v \<and>
          gone ?P demo_pid_path demo_sock_path (demo_queue []) v
      | Err e _ \<Rightarrow> \<exists>v. run echo_daemon quiet_libc (demo_queue []) = Err e v \<and>
          gone ?P demo_pid_path demo_sock_path (demo_queue []) v
      | Panic _ \<Rightarrow> False
      | Hang \<Rightarrow> run echo_daemon quiet_libc (demo_queue []) = Hang"
    by blast
  from end_run show ?thesis
    by (intro exI [of _ i] exI [of _ u] conjI iu)
      (auto simp: stop_result_def gone_def split: run.splits prod.splits)
qed

text \<open>C19: A daemon can be run again: after a run on paths nobody else touches, which may have found
  files of a crashed predecessor, has returned, with whatever result, a second run from there gets
  its PID file and its socket again and serves with both in place.\<close>

theorem run_again:
  assumes "own_paths P p (socket_path (config d)) w" "pid_file (config d) = Some p"
    and "\<And>q v. pid_alive L q v = alive q" "\<And>sig v. register_signal L sig v = Inr ()"
    and "claim_decision alive (file_content (fs w p)) \<in> {Take, Replace}"
    and "bind_decision (fs w (socket_path (config d))) \<in> {BindFresh, BindReplace}"
    and "poll_contract L" "on_start d = Inr st" "final (run d L w) = Some v"
  shows "\<exists>i u. in_service P p (socket_path (config d)) v i u \<and>
     (case run_event_loop d L st u of
        Ok _ (st1, t) \<Rightarrow>
          \<exists>x. run d L v = lift_result (stop_result d st1) x \<and> gone P p (socket_path (config d)) v x
      | Err e _ \<Rightarrow> \<exists>x. run d L v = Err e x \<and> gone P p (socket_path (config d)) v x
      | Panic _ \<Rightarrow> False
      | Hang \<Rightarrow> run d L v = Hang)"
proof -
  have g: "gone P p (socket_path (config d)) w v" by (rule run_calm_final [OF assms])
  from gone_own_paths [OF assms(1) g assms(6), of alive] show ?thesis
    by (intro run_calm [OF _ assms(2-4) _ _ assms(7,8)]) auto
qed

theorem run_again_witness:
  "\<exists>v i u. final (run echo_daemon quiet_libc (demo_queue [])) = Some v \<and>
     in_service (demo_paths \<union> demo_sock_paths) demo_pid_path demo_sock_path v i u"
proof -
  have "run echo_daemon quiet_libc (demo_queue []) \<noteq> Hang"
    by (rule run_returns [OF model_poll.poll_contract_axioms]) simp
  then obtain v where v: "final (run echo_daemon quiet_libc (demo_queue [])) = Some v"
    by (cases "run echo_daemon quiet_libc (demo_queue [])") auto
  from run_again [OF demo_own_paths echo_daemon_sel(2) model_alive demo_may_start(3,1,2)
      model_poll.poll_contract_axioms echo_daemon_sel(5) v] v
  show ?thesis by auto
qed

text \<open>C7: A run of the daemon returns, if every client that has connected or will connect sooner or later
  closes and does not stop reading: whatever others do and whichever calls fail, starting up and
  cleaning up never block, and a daemon that serves nobody reaches its idle timeout.\<close>

theorem run_terminates:
  assumes "poll_contract L" "\<forall>s \<in> set (pending w). finite_peer s"
  shows "returns (run d L w)"
  using run_returns [OF assms] by (simp add: returns_iff)

theorem run_terminates_witness:
  "returns (run echo_daemon quiet_libc (demo_queue [request_stream [5]]))"
proof -
  have "\<forall>s \<in> set (pending (demo_queue [request_stream [5]])). finite_peer s"
    by (simp add: demo_peers)
  from run_terminates [OF model_poll.poll_contract_axioms this] show ?thesis .
qed

end
