(* ===== verification/Process.thy ===== *)
theory Process imports Config World_Laws begin

text \<open>
  \<^verbatim>\<open>src/process.rs\<close>: starting the daemon binary in a session of its own. The standard streams are
  redirected to the null device and nothing else of the child is visible here; the child runs as
  another process, whose later actions are events of the world. A failing \<^verbatim>\<open>setsid\<close> in the child is
  reported by \<^verbatim>\<open>Command::spawn\<close> as the call's error.
\<close>

definition spawn_detached :: "libc \<Rightarrow> auto_start \<Rightarrow> world \<Rightarrow> (unit, world) result" where
  "spawn_detached L auto w =
     map_err Io (syscall (\<lambda>w.
       let (rc, err) = setsid L w in
       if rc = - 1 then Err err w
       else Ok () (record_action (ASpawn (program auto) (args auto)) w)) w)"

lemma settled_spawn_detached [simp]: "settled (spawn_detached L auto w)"
  by (auto simp: spawn_detached_def post_map_err split: prod.split intro!: settled_syscall)

lemma spawn_detached_log:
  "post (\<lambda>_ v. spawns v = spawns w @ [ASpawn (program auto) (args auto)])
        (\<lambda>_ v. spawns v = spawns w) (spawn_detached L auto w)"
  unfolding spawn_detached_def post_map_err
  by (rule post_syscall_log) (auto simp: spawns_def split: prod.split)

end
