(* ===== verification/Client.thy ===== *)
theory Client imports Pidfile Socket Process begin

text \<open>
  \<^verbatim>\<open>src/client.rs\<close>: the client, its three operations \<^verbatim>\<open>ping\<close>, \<^verbatim>\<open>request\<close> and \<^verbatim>\<open>shutdown\<close>, the
  recovery that starts the daemon, and the two waiting loops. A connection is used on its stream and
  closed when the function that opened it returns; closing records the stream in \<open>served\<close> with
  everything the client sent on it.
\<close>

section \<open>Configuration\<close>

record client =
  c_socket_path :: path
  c_pid_file :: "path option"
  c_auto_start :: "auto_start option"
  c_max_payload_len :: nat
  c_shutdown_timeout :: duration

definition client_new :: "path \<Rightarrow> client" where
  "client_new sp =
     \<lparr>c_socket_path = sp,
      c_pid_file = None,
      c_auto_start = None,
      c_max_payload_len = DEFAULT_MAX_PAYLOAD_LEN,
      c_shutdown_timeout = from_secs 2\<rparr>"

definition with_pid_file :: "client \<Rightarrow> path \<Rightarrow> client" where
  "with_pid_file c p = c\<lparr>c_pid_file := Some p\<rparr>"

definition with_auto_start :: "client \<Rightarrow> path \<Rightarrow> client" where
  "with_auto_start c prog = c\<lparr>c_auto_start := Some (auto_start_new prog)\<rparr>"

definition with_auto_start_config :: "client \<Rightarrow> auto_start \<Rightarrow> client" where
  "with_auto_start_config c a = c\<lparr>c_auto_start := Some a\<rparr>"

definition with_max_payload_len :: "client \<Rightarrow> nat \<Rightarrow> client" where
  "with_max_payload_len c n = c\<lparr>c_max_payload_len := n\<rparr>"

definition with_shutdown_timeout :: "client \<Rightarrow> duration \<Rightarrow> client" where
  "with_shutdown_timeout c t = c\<lparr>c_shutdown_timeout := t\<rparr>"

definition client_socket_path :: "client \<Rightarrow> path" where
  "client_socket_path c = c_socket_path c"

section \<open>Recoverable errors\<close>

definition recoverable_connect_error :: "io_error \<Rightarrow> bool" where
  "recoverable_connect_error err \<longleftrightarrow>
     io_kind err \<in> {NotFound, ConnectionRefused, ConnectionAborted, NotConnected}"

fun can_attempt_recovery :: "error \<Rightarrow> bool" where
  "can_attempt_recovery (Io err) = recoverable_connect_error err"
| "can_attempt_recovery _ = False"

section \<open>One exchange\<close>

text \<open>What a function does on its connection, which is closed at its end.\<close>

definition on_stream :: "(stream \<Rightarrow> ('a, stream) result) \<Rightarrow> stream \<Rightarrow> world \<Rightarrow> ('a, world) result" where
  "on_stream f s w = map_state (\<lambda>s. close_stream s w) (f s)"

definition send_request_once :: "client \<Rightarrow> bytes \<Rightarrow> world \<Rightarrow> (bytes, world) result" where
  "send_request_once c pl w =
     and_then (map_err Io (connect (c_socket_path c) w)) (on_stream (\<lambda>s.
       and_then (write_frame KRequest pl s) (\<lambda>_ s.
       and_then (read_frame (c_max_payload_len c) s) (\<lambda>frame s.
       case kind frame of
         KResponse \<Rightarrow> Ok (payload frame) s
       | KError \<Rightarrow> Err (DaemonReturnedError (utf8_lossy (payload frame))) s
       | other \<Rightarrow> Err (UnexpectedFrameKind (kind_label KResponse) (kind_label other)) s))))"

definition try_ping_once :: "client \<Rightarrow> world \<Rightarrow> (unit, world) result" where
  "try_ping_once c w =
     and_then (map_err Io (connect (c_socket_path c) w)) (on_stream (\<lambda>s.
       and_then (write_frame KPing [] s) (\<lambda>_ s.
       and_then (read_frame (c_max_payload_len c) s) (\<lambda>frame s.
       case kind frame of
         KPong \<Rightarrow> Ok () s
       | other \<Rightarrow> Err (UnexpectedFrameKind (kind_label KPong) (kind_label other)) s))))"

section \<open>Is the daemon alive\<close>

definition pid_file_points_to_live_process :: "client \<Rightarrow> libc \<Rightarrow> world \<Rightarrow> (bool, world) result" where
  "pid_file_points_to_live_process c L w =
     (case c_pid_file c of
        None \<Rightarrow> Ok False w
      | Some p \<Rightarrow>
          and_then (read_pid p w) (\<lambda>found w.
          case found of
            Some pid \<Rightarrow> is_process_alive L pid w
          | None \<Rightarrow> Ok False w))"

definition should_treat_connect_error_as_not_running ::
  "client \<Rightarrow> libc \<Rightarrow> io_error \<Rightarrow> world \<Rightarrow> (bool, world) result" where
  "should_treat_connect_error_as_not_running c L err w =
     (if \<not> recoverable_connect_error err then Ok False w
      else and_then (pid_file_points_to_live_process c L w) (\<lambda>live w. Ok (\<not> live) w))"

section \<open>Waiting for readiness\<close>

partial_function (option) ready_loop ::
  "client \<Rightarrow> auto_start \<Rightarrow> nat \<Rightarrow> duration \<Rightarrow> world \<Rightarrow> (unit, world) result option" where
  "ready_loop c auto deadline backoff w =
     (case try_ping_once c w of
        Ok _ w \<Rightarrow> Some (Ok () w)
      | Err err w \<Rightarrow>
          if can_attempt_recovery err then
            (let w = snd (enter w) in
             if clock w < deadline then
               (case sleep backoff w of
                  Ok _ w \<Rightarrow>
                    ready_loop c auto deadline
                      (min (saturating_double backoff) (max_backoff auto)) w
                | Err err w \<Rightarrow> Some (Err err w)
                | Panic w \<Rightarrow> Some (Panic w)
                | Hang \<Rightarrow> None)
             else Some (Err (ReadyTimeout (c_socket_path c) (ready_timeout auto)) w))
          else Some (Err err w)
      | Panic w \<Rightarrow> Some (Panic w)
      | Hang \<Rightarrow> None)"

definition wait_for_ready :: "client \<Rightarrow> auto_start \<Rightarrow> world \<Rightarrow> (unit, world) result" where
  "wait_for_ready c auto w =
     and_then (now w) (\<lambda>t w.
     and_then (instant_add t (ready_timeout auto) w) (\<lambda>deadline w.
     unhang (ready_loop c auto deadline (initial_backoff auto) w)))"

definition recover_if_needed :: "client \<Rightarrow> libc \<Rightarrow> error \<Rightarrow> world \<Rightarrow> (unit, world) result" where
  "recover_if_needed c L err w =
     (case c_auto_start c of
        None \<Rightarrow> Err err w
      | Some auto \<Rightarrow>
          if \<not> can_attempt_recovery err then Err err w
          else
            and_then (pid_file_points_to_live_process c L w) (\<lambda>live w.
            and_then (if \<not> live then spawn_detached L auto w else Ok () w) (\<lambda>_ w.
            wait_for_ready c auto w)))"

section \<open>The operations\<close>

definition ping :: "client \<Rightarrow> libc \<Rightarrow> world \<Rightarrow> (unit, world) result" where
  "ping c L w =
     (case try_ping_once c w of
        Ok _ w \<Rightarrow> Ok () w
      | Err err w \<Rightarrow> recover_if_needed c L err w
      | Panic w \<Rightarrow> Panic w
      | Hang \<Rightarrow> Hang)"

definition request :: "client \<Rightarrow> libc \<Rightarrow> bytes \<Rightarrow> world \<Rightarrow> (bytes, world) result" where
  "request c L pl w =
     (case send_request_once c pl w of
        Ok response w \<Rightarrow> Ok response w
      | Err err w \<Rightarrow> and_then (recover_if_needed c L err w) (\<lambda>_ w. send_request_once c pl w)
      | Panic w \<Rightarrow> Panic w
      | Hang \<Rightarrow> Hang)"

definition shutdown_complete :: "client \<Rightarrow> libc \<Rightarrow> world \<Rightarrow> (bool, world) result" where
  "shutdown_complete c L w =
     and_then
       (case metadata (c_socket_path c) w of
          Ok _ w \<Rightarrow> Ok False w
        | Err err w \<Rightarrow> if io_kind err = NotFound then Ok True w else Err (Io err) w
        | Panic w \<Rightarrow> Panic w
        | Hang \<Rightarrow> Hang) (\<lambda>socket_gone w.
     if \<not> socket_gone then Ok False w
     else and_then (pid_file_points_to_live_process c L w) (\<lambda>live w. Ok (\<not> live) w))"

partial_function (option) shutdown_loop ::
  "client \<Rightarrow> libc \<Rightarrow> nat \<Rightarrow> world \<Rightarrow> (unit, world) result option" where
  "shutdown_loop c L deadline w =
     (case shutdown_complete c L w of
        Ok complete w \<Rightarrow>
          if complete then Some (Ok () w)
          else
            (let w = snd (enter w) in
             if deadline \<le> clock w then
               Some (Err (ShutdownTimeout (c_socket_path c) (c_shutdown_timeout c)) w)
             else
               (case sleep (from_millis 20) w of
                  Ok _ w \<Rightarrow> shutdown_loop c L deadline w
                | Err err w \<Rightarrow> Some (Err err w)
                | Panic w \<Rightarrow> Some (Panic w)
                | Hang \<Rightarrow> None))
      | Err err w \<Rightarrow> Some (Err err w)
      | Panic w \<Rightarrow> Some (Panic w)
      | Hang \<Rightarrow> None)"

definition wait_for_shutdown :: "client \<Rightarrow> libc \<Rightarrow> world \<Rightarrow> (unit, world) result" where
  "wait_for_shutdown c L w =
     and_then (now w) (\<lambda>t w.
     and_then (instant_add t (c_shutdown_timeout c) w) (\<lambda>deadline w.
     unhang (shutdown_loop c L deadline w)))"

definition shutdown :: "client \<Rightarrow> libc \<Rightarrow> world \<Rightarrow> (bool, world) result" where
  "shutdown c L w =
     (case connect (c_socket_path c) w of
        Ok stream w \<Rightarrow>
          (case and_then (write_frame KShutdown [] stream)
                  (\<lambda>_ stream. read_frame (c_max_payload_len c) stream) of
             Ok frame stream \<Rightarrow>
               map_state (close_stream stream)
                 (case kind frame of
                    KShutdownAck \<Rightarrow> and_then (wait_for_shutdown c L w) (\<lambda>_ w. Ok True w)
                  | KError \<Rightarrow> Err (DaemonReturnedError (utf8_lossy (payload frame))) w
                  | other \<Rightarrow>
                      Err (UnexpectedFrameKind (kind_label KShutdownAck) (kind_label other)) w)
           | Err err stream \<Rightarrow> Err err (close_stream stream w)
           | Panic stream \<Rightarrow> Panic (close_stream stream w)
           | Hang \<Rightarrow> Hang)
      | Err err w \<Rightarrow>
          and_then (should_treat_connect_error_as_not_running c L err w) (\<lambda>not_running w.
          if not_running then Ok False w else Err (Io err) w)
      | Panic w \<Rightarrow> Panic w
      | Hang \<Rightarrow> Hang)"

section \<open>What every run of these operations respects\<close>

context client_relation
begin

lemma on_stream_R: "ends_in (R w) (on_stream f s w)"
  by (cases "f s") (simp_all add: on_stream_def close_stream_R)

lemma send_request_once_R: "ends_in (R w) (send_request_once c pl w)"
  unfolding send_request_once_def by (rule seq_R) (simp_all add: connect_R on_stream_R)

lemma try_ping_once_R: "ends_in (R w) (try_ping_once c w)"
  unfolding try_ping_once_def by (rule seq_R) (simp_all add: connect_R on_stream_R)

lemma pid_file_points_R: "ends_in (R w) (pid_file_points_to_live_process c L w)"
  by (auto simp: pid_file_points_to_live_process_def R_refl intro!: seq_R read_pid_R is_process_alive_R
      split: option.split)

lemma should_treat_R: "ends_in (R w) (should_treat_connect_error_as_not_running c L err w)"
  by (auto simp: should_treat_connect_error_as_not_running_def R_refl intro!: seq_R pid_file_points_R)

lemma shutdown_complete_R: "ends_in (R w) (shutdown_complete c L w)"
  unfolding shutdown_complete_def
proof (rule seq_R)
  show "ends_in (R w) (case metadata (c_socket_path c) w of
          Ok _ w \<Rightarrow> Ok False w
        | Err err w \<Rightarrow> if io_kind err = NotFound then Ok True w else Err (Io err) w
        | Panic w \<Rightarrow> Panic w
        | Hang \<Rightarrow> Hang)"
    using metadata_R [of w "c_socket_path c"] by (auto split: run.split)
qed (auto intro!: seq_R pid_file_points_R R_refl)

lemma ready_loop_R: "ready_loop c auto deadline backoff w = Some r \<Longrightarrow> ends_in (R w) r"
proof (erule ready_loop.raw_induct [where P = "\<lambda>c auto deadline backoff w r. ends_in (R w) r", rotated],
    goal_cases)
  case (1 loop c auto deadline backoff w r)
  show ?case
  proof (cases "try_ping_once c w")
    case (Err e v)
    then have v: "R w v" using try_ping_once_R [of w c] by simp
    then have u: "R w (snd (enter v))" by (rule R_trans [OF _ R_enter])
    show ?thesis
    proof (cases "can_attempt_recovery e \<and> clock (snd (enter v)) < deadline")
      case True
      obtain y where y: "(sleep backoff (snd (enter v)) :: (unit, world) result) = Ok () y"
        by (simp add: sleep_def Let_def)
      with sleep_R [of "snd (enter v)" backoff] have "R (snd (enter v)) y"
        by (metis ends_in.simps(1))
      with u have "R w y" by (rule R_trans)
      moreover have "ends_in (R y) r"
        using 1(1) 1(2) Err True y by (auto simp: Let_def)
      ultimately show ?thesis by (rule weaken_R)
    next
      case False
      with 1(2) Err have "r = Err e v \<or>
          r = Err (ReadyTimeout (c_socket_path c) (ready_timeout auto)) (snd (enter v))"
        by (simp add: Let_def split: if_splits)
      with u v show ?thesis by auto
    qed
  qed (use 1(2) try_ping_once_R [of w c] in auto)
qed

lemma shutdown_loop_R: "shutdown_loop c L deadline w = Some r \<Longrightarrow> ends_in (R w) r"
proof (erule shutdown_loop.raw_induct [where P = "\<lambda>c L deadline w r. ends_in (R w) r", rotated],
    goal_cases)
  case (1 loop c L deadline w r)
  show ?case
  proof (cases "shutdown_complete c L w")
    case (Ok b v)
    then have v: "R w v" using shutdown_complete_R [of w c L] by simp
    then have u: "R w (snd (enter v))" by (rule R_trans [OF _ R_enter])
    show ?thesis
    proof (cases "b \<or> deadline \<le> clock (snd (enter v))")
      case False
      obtain y where y: "(sleep (from_millis 20) (snd (enter v)) :: (unit, world) result) = Ok () y"
        by (simp add: sleep_def Let_def)
      with sleep_R [of "snd (enter v)" "from_millis 20"] have "R (snd (enter v)) y"
        by (metis ends_in.simps(1))
      with u have "R w y" by (rule R_trans)
      moreover have "ends_in (R y) r"
        using 1(1) 1(2) Ok False y by (auto simp: Let_def)
      ultimately show ?thesis by (rule weaken_R)
    qed (use 1(2) Ok u v in \<open>auto simp: Let_def split: if_splits\<close>)
  qed (use 1(2) shutdown_complete_R [of w c L] in auto)
qed

lemma ends_in_unhang: "(\<And>x. r = Some x \<Longrightarrow> ends_in Q x) \<Longrightarrow> ends_in Q (unhang r)"
  by (cases r) simp_all

lemma wait_for_ready_R: "ends_in (R w) (wait_for_ready c auto w)"
  unfolding wait_for_ready_def
  by (intro seq_R now_R instant_add_R ends_in_unhang) (rule ready_loop_R)

lemma wait_for_shutdown_R: "ends_in (R w) (wait_for_shutdown c L w)"
  unfolding wait_for_shutdown_def
  by (intro seq_R now_R instant_add_R ends_in_unhang) (rule shutdown_loop_R)

lemma shutdown_R: "ends_in (R w) (shutdown c L w)"
proof (cases "connect (c_socket_path c) w")
  case (Ok s v)
  then have v: "R w v" using connect_R [of w "c_socket_path c"] by simp
  have close: "R w (close_stream t u)" if "R v u" for t u
    using v that by (blast intro: R_trans close_stream_R)
  have wait: "ends_in (\<lambda>u. R w (close_stream t u)) (and_then (wait_for_shutdown c L v) (\<lambda>_ w. Ok True w))"
    for t
    using wait_for_shutdown_R [of v c L] close
    by (cases "wait_for_shutdown c L v") auto
  have ends_map: "ends_in Q (map_state f r) = ends_in (\<lambda>x. Q (f x)) r"
    for Q and f :: "world \<Rightarrow> world" and r :: "(bool, world) result"
    by (cases r) auto
  show ?thesis
  proof (cases "and_then (write_frame KShutdown [] s) (\<lambda>_ s. read_frame (c_max_payload_len c) s)")
    case x: (Ok f t)
    show ?thesis
      using close [OF R_refl] wait [of t]
      by (cases "kind f") (simp_all add: shutdown_def Ok x ends_map)
  qed (simp_all add: shutdown_def Ok close R_refl)
next
  case (Err e v)
  then have v: "R w v" using connect_R [of w "c_socket_path c"] by simp
  have "ends_in (R v) (and_then (should_treat_connect_error_as_not_running c L e v)
      (\<lambda>not_running w. if not_running then Ok False w else Err (Io e) w))"
    by (rule seq_R [OF should_treat_R]) (simp add: R_refl)
  with v Err show ?thesis by (simp add: shutdown_def weaken_R)
qed (use connect_R [of w "c_socket_path c"] in \<open>simp_all add: shutdown_def\<close>)

end

end
