(* ===== verification/Client_Properties.thy ===== *)
theory Client_Properties imports Client begin

text \<open>
  The properties of \<^verbatim>\<open>src/client.rs\<close>: when it starts a process, what it retries, how long its loops
  wait, and what \<^verbatim>\<open>shutdown\<close> answers when nothing runs.
\<close>

section \<open>Starting a process\<close>

abbreviation started :: "client \<Rightarrow> world \<Rightarrow> world \<Rightarrow> bool" where
  "started c w v \<equiv>
     spawns v = spawns w \<or>
     (\<exists>a. c_auto_start c = Some a \<and> spawns v = spawns w @ [ASpawn (program a) (args a)])"

lemma recover_spawns:
  "ends_in (\<lambda>v. spawns v = spawns w \<or>
       (\<exists>a u. c_auto_start c = Some a \<and> spawns v = spawns w @ [ASpawn (program a) (args a)] \<and>
              can_attempt_recovery err \<and> pid_file_points_to_live_process c L w = Ok False u))
     (recover_if_needed c L err w)"
proof (cases "c_auto_start c")
  case (Some a)
  show ?thesis
  proof (cases "can_attempt_recovery err")
    case can: True
    show ?thesis
    proof (cases "pid_file_points_to_live_process c L w")
      case (Ok live v)
      have v: "spawns v = spawns w" using spawn.pid_file_points_R [of w c L] Ok by simp
      show ?thesis
      proof (cases live)
        case True
        have "ends_in (\<lambda>u. spawns u = spawns v) (wait_for_ready c a v)"
          by (rule spawn.wait_for_ready_R)
        with v show ?thesis
          by (auto simp: recover_if_needed_def Some can Ok True elim: ends_in_mono)
      next
        case False
        show ?thesis
        proof (cases "spawn_detached L a v")
          case sp: (Ok x u)
          have "ends_in (\<lambda>t. spawns t = spawns u) (wait_for_ready c a u)"
            by (rule spawn.wait_for_ready_R)
          moreover have "spawns u = spawns w @ [ASpawn (program a) (args a)]"
            using spawn_detached_log [of v a L] sp v by simp
          ultimately show ?thesis
            by (auto simp: recover_if_needed_def Some can Ok False sp elim: ends_in_mono)
        qed (use spawn_detached_log [of v a L] v in
            \<open>auto simp: recover_if_needed_def Some can Ok False\<close>)
      qed
    qed (use spawn.pid_file_points_R [of w c L] in \<open>auto simp: recover_if_needed_def Some can\<close>)
  qed (simp add: recover_if_needed_def Some)
qed (simp add: recover_if_needed_def)

lemma ping_spawns: "ends_in (started c w) (ping c L w)"
proof (cases "try_ping_once c w")
  case (Err e v)
  then have "spawns v = spawns w" using spawn.try_ping_once_R [of w c] by simp
  with Err recover_spawns [of v c e L] show ?thesis
    by (auto simp: ping_def elim!: ends_in_mono)
qed (use spawn.try_ping_once_R [of w c] in \<open>auto simp: ping_def\<close>)

lemma request_spawns: "ends_in (started c w) (request c L pl w)"
proof (cases "send_request_once c pl w")
  case (Err e v)
  then have v: "spawns v = spawns w" using spawn.send_request_once_R [of w c pl] by simp
  show ?thesis
  proof (cases "recover_if_needed c L e v")
    case (Ok x u)
    with recover_spawns [of v c e L] v have "started c w u" by auto
    moreover have "ends_in (\<lambda>t. spawns t = spawns u) (send_request_once c pl u)"
      by (rule spawn.send_request_once_R)
    ultimately show ?thesis
      using Err Ok by (auto simp: request_def elim!: ends_in_mono)
  qed (use Err v recover_spawns [of v c e L] in \<open>auto simp: request_def\<close>)
qed (use spawn.send_request_once_R [of w c pl] in \<open>auto simp: request_def\<close>)

text \<open>C28: The client starts at most one process per call, and only a \<^verbatim>\<open>ping\<close> or a \<^verbatim>\<open>request\<close> of a client
  configured for auto-start does: it is the configured program with the configured arguments.
  \<^verbatim>\<open>shutdown\<close> never starts one, whatever happens.\<close>

theorem client_starts_at_most_one:
  "ends_in (\<lambda>v. spawns v = spawns w) (shutdown c L w) \<and>
   ends_in (\<lambda>v. spawns v = spawns w \<or>
       (\<exists>a. c_auto_start c = Some a \<and> spawns v = spawns w @ [ASpawn (program a) (args a)])) (ping c L w) \<and>
   ends_in (\<lambda>v. spawns v = spawns w \<or>
       (\<exists>a. c_auto_start c = Some a \<and> spawns v = spawns w @ [ASpawn (program a) (args a)]))
     (request c L pl w)"
  using spawn.shutdown_R ping_spawns request_spawns by blast


section \<open>What is retried\<close>

text \<open>Only a failed connection is retried: if the first attempt of a \<^verbatim>\<open>request\<close> or \<^verbatim>\<open>ping\<close> succeeds, its
  result is returned; if it fails with any error the daemon or the protocol reports, or without
  auto-start, that very error is returned, with no further connection and no process started. In
  particular a request the daemon answered with an error is never sent twice.\<close>

theorem only_connection_errors_are_retried:
  "(send_request_once c pl w = Ok x v \<longrightarrow> request c L pl w = Ok x v) \<and>
   (send_request_once c pl w = Err e v \<and> (c_auto_start c = None \<or> (\<forall>io. e \<noteq> Io io)) \<longrightarrow>
      request c L pl w = Err e v) \<and>
   (try_ping_once c w = Err e v \<and> (c_auto_start c = None \<or> (\<forall>io. e \<noteq> Io io)) \<longrightarrow>
      ping c L w = Err e v)"
proof -
  have "recover_if_needed c L e v = Err e v" if "c_auto_start c = None \<or> (\<forall>io. e \<noteq> Io io)"
  proof -
    have "\<not> can_attempt_recovery e" if "\<forall>io. e \<noteq> Io io" using that by (cases e) auto
    with that show ?thesis by (auto simp: recover_if_needed_def split: option.split)
  qed
  then show ?thesis by (auto simp: request_def ping_def)
qed

section \<open>Waiting\<close>

lemma frame_errors:
  "read_frame m s \<noteq> Err (ReadyTimeout p t) s'" "write_frame k pl s \<noteq> Err (ReadyTimeout p t) s'"
  by (auto simp: read_frame_def write_frame_def write_frame_with_flags_def Let_def header_decode_def
      kind_try_from_def run_iffs split: if_splits)

lemma try_ping_not_ready_timeout: "try_ping_once c w \<noteq> Err (ReadyTimeout s t) v"
  by (auto simp: try_ping_once_def on_stream_def run_iffs frame_errors split: frame_kind.splits)

lemma ready_loop_not_early:
  assumes "ready_loop c auto deadline backoff w = Some r"
  shows "r = Err (ReadyTimeout s t) v \<longrightarrow>
         deadline \<le> clock v \<and> s = c_socket_path c \<and> t = ready_timeout auto"
  using assms
proof (rule ready_loop.raw_induct [where P = "\<lambda>c auto deadline backoff w r.
      r = Err (ReadyTimeout s t) v \<longrightarrow>
      deadline \<le> clock v \<and> s = c_socket_path c \<and> t = ready_timeout auto", rotated],
    goal_cases)
  case (1 loop c auto deadline backoff w r)
  show ?case
  proof (cases "try_ping_once c w")
    case (Err e u)
    show ?thesis
    proof (cases "can_attempt_recovery e \<and> clock (snd (enter u)) < deadline")
      case True
      obtain y where y: "(sleep backoff (snd (enter u)) :: (unit, world) result) = Ok () y"
        by (simp add: sleep_def Let_def)
      with 1 Err True show ?thesis by (simp add: Let_def)
    next
      case False
      have "e \<noteq> ReadyTimeout s t" using try_ping_not_ready_timeout Err by metis
      moreover have "r = Err e u \<or> deadline \<le> clock (snd (enter u)) \<and>
          r = Err (ReadyTimeout (c_socket_path c) (ready_timeout auto)) (snd (enter u))"
        using False 1(2) Err by (auto simp: Let_def split: if_splits)
      ultimately show ?thesis by auto
    qed
  qed (use 1(2) in auto)
qed

text \<open>Nobody interferes and nobody listens.\<close>

definition unreachable :: "client \<Rightarrow> world \<Rightarrow> bool" where
  "unreachable c w \<longleftrightarrow>
     sched w = [] \<and>
     (fs w (c_socket_path c) = None \<or> (\<exists>i. fs w (c_socket_path c) = Some (Sock i False)))"

declare enter_idle [simp]

lemma ping_unreachable:
  "unreachable c w \<Longrightarrow> \<exists>e. try_ping_once c w = Err (Io e) w \<and> recoverable_connect_error e"
  by (auto simp: unreachable_def try_ping_once_def connect_def unix_connect_def syscall_def
      lookup_missing lookup_plain recoverable_connect_error_def)

lemma ready_loop_gives_up:
  assumes "0 < max_backoff auto"
  shows "unreachable c w \<Longrightarrow> 0 < backoff \<Longrightarrow>
    \<exists>v. ready_loop c auto deadline backoff w
          = Some (Err (ReadyTimeout (c_socket_path c) (ready_timeout auto)) v) \<and>
        deadline \<le> clock v \<and>
        (clock v < deadline + max backoff (max_backoff auto) \<or> clock v = clock w)"
proof (induction "deadline - clock w" arbitrary: w backoff rule: less_induct)
  case less
  obtain e where e: "try_ping_once c w = Err (Io e) w" "recoverable_connect_error e"
    using ping_unreachable [OF less.prems(1)] by blast
  have idle: "enter w = (None, w)" using less.prems(1) by (simp add: unreachable_def)
  show ?case
  proof (cases "clock w < deadline")
    case False
    with e idle show ?thesis by (subst ready_loop.simps) simp
  next
    case True
    define w' where "w' = w\<lparr>clock := clock w + backoff\<rparr>"
    define b where "b = min (saturating_double backoff) (max_backoff auto)"
    have sl: "(sleep backoff w :: (unit, world) result) = Ok () w'"
      using idle by (simp add: sleep_def w'_def)
    have "unreachable c w'" using less.prems(1) by (simp add: unreachable_def w'_def)
    moreover have "0 < b" "b \<le> max_backoff auto"
      using less.prems(2) assms by (simp_all add: b_def saturating_double_def max_duration_def)
    moreover have "deadline - clock w' < deadline - clock w"
      using True less.prems(2) by (simp add: w'_def)
    ultimately obtain v where v: "ready_loop c auto deadline b w'
          = Some (Err (ReadyTimeout (c_socket_path c) (ready_timeout auto)) v)"
      "deadline \<le> clock v" "clock v < deadline + max b (max_backoff auto) \<or> clock v = clock w'"
      using less.hyps by blast
    have "ready_loop c auto deadline backoff w = ready_loop c auto deadline b w'"
      using e idle True sl by (subst ready_loop.simps) (simp add: b_def)
    moreover have "clock v < deadline + max backoff (max_backoff auto)"
      using v(3) True \<open>b \<le> max_backoff auto\<close> by (auto simp: w'_def)
    ultimately show ?thesis using v(1,2) by auto
  qed
qed

lemma wait_gives_up:
  assumes "unreachable c w" "0 < initial_backoff auto" "0 < max_backoff auto"
    and "clock w + ready_timeout auto < 2 ^ 63 * 1000000000"
  shows "\<exists>v. wait_for_ready c auto w
           = Err (ReadyTimeout (c_socket_path c) (ready_timeout auto)) v \<and>
         clock w + ready_timeout auto \<le> clock v \<and>
         clock v < clock w + ready_timeout auto + max (initial_backoff auto) (max_backoff auto)"
proof -
  have idle: "enter w = (None, w)" using assms(1) by (simp add: unreachable_def)
  obtain v where v: "ready_loop c auto (clock w + ready_timeout auto) (initial_backoff auto) w
          = Some (Err (ReadyTimeout (c_socket_path c) (ready_timeout auto)) v)"
    "clock w + ready_timeout auto \<le> clock v"
    "clock v < clock w + ready_timeout auto + max (initial_backoff auto) (max_backoff auto) \<or>
     clock v = clock w"
    using ready_loop_gives_up [OF assms(3,1,2)] by blast
  have "wait_for_ready c auto w = Err (ReadyTimeout (c_socket_path c) (ready_timeout auto)) v"
    using v(1) assms(4) idle by (simp add: wait_for_ready_def now_def instant_add_def)
  with v(2,3) assms(2) show ?thesis by auto
qed

text \<open>Waiting for readiness never gives up early: whatever happens meanwhile, \<^verbatim>\<open>ReadyTimeout\<close> is
  reported only after the full ready timeout has passed, and it names the client's socket and that
  timeout.\<close>

theorem ready_timeout_not_early:
  assumes "wait_for_ready c auto w = Err (ReadyTimeout s t) v"
  shows "clock w + ready_timeout auto \<le> clock v \<and> s = c_socket_path c \<and> t = ready_timeout auto"
proof -
  have le: "clock w \<le> clock (snd (enter w))" by (rule enter_frame)
  from assms obtain r where
    r: "ready_loop c auto (clock (snd (enter w)) + ready_timeout auto) (initial_backoff auto)
          (snd (enter w)) = Some r" "r = Err (ReadyTimeout s t) v"
    by (cases "ready_loop c auto (clock (snd (enter w)) + ready_timeout auto) (initial_backoff auto)
          (snd (enter w))")
      (auto simp: wait_for_ready_def now_def instant_add_def Let_def split: if_splits)
  from ready_loop_not_early [OF r(1), of s t v] r(2) le show ?thesis by simp
qed

text \<open>Waiting for readiness ends: when nothing ever listens on the socket and the backoffs are not
  zero, it reports \<^verbatim>\<open>ReadyTimeout\<close> after the ready timeout and before one more backoff, however the
  backoff doubles.\<close>

theorem ready_timeout_in_time:
  assumes "unreachable c w" "0 < initial_backoff auto" "0 < max_backoff auto"
    and "clock w + ready_timeout auto < 2 ^ 63 * 1000000000"
  shows "\<exists>v. wait_for_ready c auto w
           = Err (ReadyTimeout (c_socket_path c) (ready_timeout auto)) v \<and>
         clock w + ready_timeout auto \<le> clock v \<and>
         clock v < clock w + ready_timeout auto + max (initial_backoff auto) (max_backoff auto)"
  using assms by (rule wait_gives_up)

text \<open>Asking whether the daemon lives, and whether its shutdown is complete, returns an answer or an
  I/O error.\<close>

abbreviation answers :: "('a, world) result \<Rightarrow> bool" where
  "answers \<equiv> post (\<lambda>_ _. True) (\<lambda>e _. \<exists>io. e = Io io)"

lemma read_pid_answers: "answers (read_pid p v)"
  using settled_calls(4) [of p v]
  by (cases "read_to_string p v") (auto simp: read_pid_def split: option.split)

lemma pid_file_points_answers: "answers (pid_file_points_to_live_process c L v)"
  by (auto simp: pid_file_points_to_live_process_def is_process_alive_def Let_def
      intro!: post_and_then [OF read_pid_answers] split: option.split)

lemma shutdown_complete_answers: "answers (shutdown_complete c L w)"
proof -
  have meta: "answers (case metadata (c_socket_path c) w of
          Ok _ w \<Rightarrow> Ok False w
        | Err err w \<Rightarrow> if io_kind err = NotFound then Ok True w else Err (Io err) w
        | Panic w \<Rightarrow> Panic w
        | Hang \<Rightarrow> Hang)"
    by (rule post_match [OF settled_calls(8)]) simp_all
  show ?thesis
    unfolding shutdown_complete_def
    by (rule post_and_then [OF meta]) (auto intro!: post_and_then [OF pid_file_points_answers])
qed

lemma shutdown_loop_ends:
  "\<exists>r. shutdown_loop c L deadline w = Some r \<and>
       post (\<lambda>_ v. \<exists>u. shutdown_complete c L u = Ok True v)
            (\<lambda>e v. (\<exists>io. e = Io io) \<or>
                   e = ShutdownTimeout (c_socket_path c) (c_shutdown_timeout c) \<and> deadline \<le> clock v) r"
proof (induction "deadline - clock w" arbitrary: w rule: less_induct)
  case less
  show ?case
  proof (cases "shutdown_complete c L w")
    case (Ok b v)
    let ?u = "snd (enter v)"
    show ?thesis
    proof (cases "b \<or> deadline \<le> clock ?u")
      case True
      with Ok show ?thesis by (subst shutdown_loop.simps) (auto simp: Let_def)
    next
      case False
      define y where "y = (snd (enter ?u))\<lparr>clock := clock (snd (enter ?u)) + from_millis 20\<rparr>"
      have sl: "(sleep (from_millis 20) ?u :: (unit, world) result) = Ok () y"
        by (simp add: sleep_def Let_def y_def)
      have "clock w \<le> clock v" using time.shutdown_complete_R [of w c L] Ok by simp
      then have "clock w < clock y" "clock ?u < clock y"
        using enter_frame(7) [of v] enter_frame(7) [of ?u]
        by (simp_all add: y_def from_millis_def)
      then have "deadline - clock y < deadline - clock w"
        using False enter_frame(7) [of v] \<open>clock w \<le> clock v\<close> by auto
      from less.hyps [OF this] Ok False sl show ?thesis
        by (subst shutdown_loop.simps) (simp add: Let_def)
    qed
  next
    case (Err e v)
    with shutdown_complete_answers [of c L w] show ?thesis
      by (subst shutdown_loop.simps) auto
  qed (use shutdown_complete_answers [of c L w] in auto)
qed


section \<open>Shutting down what does not run\<close>

definition absent_daemon :: "path set \<Rightarrow> client \<Rightarrow> path \<Rightarrow> world \<Rightarrow> bool" where
  "absent_daemon P c p w \<longleftrightarrow>
     calm P w \<and> c_socket_path c \<in> P \<and> fs w (c_socket_path c) = None \<and> c_pid_file c = Some p \<and>
     placed P p w \<and> plain_entry p w"

lemma pid_file_points_calm:
  assumes "calm P w" "p \<in> P" "plain_entry p w" "c_pid_file c = Some p"
    and "\<And>q v. pid_alive L q v = alive q"
  shows "\<exists>v. same P w v \<and> pid_file_points_to_live_process c L w =
     (case claim_decision alive (file_content (fs w p)) of
        Take \<Rightarrow> Ok False v
      | Replace \<Rightarrow> Ok False v
      | RefusePid q \<Rightarrow> Ok True v
      | RefuseUnreadable \<Rightarrow> Err (Io invalid_utf8) v)"
proof (cases "fs w p")
  case None
  with read_to_string_missing_calm [OF assms(1,2)] show ?thesis
    by (auto simp: pid_file_points_to_live_process_def assms(4) read_pid_def claim_decision_def)
next
  case (Some nd)
  with assms(3) obtain i b where b: "fs w p = Some (File i b)"
    by (cases nd) (auto simp: plain_entry_def)
  obtain v where v: "read_pid p w = (if utf8_valid b then Ok (parse_u32 (trim b)) v
      else Err (Io invalid_utf8) v)" "same P w v"
    using read_pid_calm [OF assms(1,2) b] by auto
  obtain u where u: "enter v = (None, u)" "same P v u"
    using enter_calm [of P v] v(2) by auto
  show ?thesis
  proof (cases "utf8_valid b \<and> parse_u32 (trim b) \<noteq> None")
    case True
    then obtain q where "parse_u32 (trim b) = Some q" by auto
    with True v u same_trans [OF v(2) u(2)] assms(5) b show ?thesis
      by (intro exI [of _ u])
        (simp add: pid_file_points_to_live_process_def assms(4) is_process_alive_def
          claim_decision_def)
  next
    case False
    with v b show ?thesis
      by (intro exI [of _ v])
        (auto simp: pid_file_points_to_live_process_def assms(4) claim_decision_def)
  qed
qed

text \<open>Shutting down a daemon that is not there: with no socket file, \<^verbatim>\<open>shutdown\<close> answers
  \<^verbatim>\<open>Ok(false)\<close> if the PID file is missing, malformed or names a dead process, and reports the connection
  error if it names a live one; a PID file that is not UTF-8 gives the read error. It changes no
  file and opens no connection.\<close>

theorem shutdown_absent_daemon:
  assumes "absent_daemon P c p w" "\<And>q v. pid_alive L q v = alive q"
  shows "\<exists>v. same P w v \<and> shutdown c L w =
     (case claim_decision alive (file_content (fs w p)) of
        Take \<Rightarrow> Ok False v
      | Replace \<Rightarrow> Ok False v
      | RefusePid q \<Rightarrow> Err (Io (os_error NotFound)) v
      | RefuseUnreadable \<Rightarrow> Err (Io invalid_utf8) v)"
proof -
  have a: "calm P w" "c_socket_path c \<in> P" "fs w (c_socket_path c) = None" "c_pid_file c = Some p"
    "p \<in> P" "plain_entry p w"
    using assms(1) by (auto simp: absent_daemon_def placed_def)
  obtain u where u: "enter w = (None, u)" "same P w u" using enter_calm [OF a(1)] by auto
  have con: "connect (c_socket_path c) w = Err (os_error NotFound) u"
    using u a(2,3) by (simp add: connect_def unix_connect_def syscall_def lookup_missing same_fs)
  have at: "calm P u" "fs u p = fs w p" "plain_entry p u"
    using u(2) a(5,6) by (simp_all add: same_fs plain_entry_def)
  from pid_file_points_calm [OF at(1) a(5) at(3) a(4) assms(2)] at(2) obtain v where
    "same P u v" "pid_file_points_to_live_process c L u =
     (case claim_decision alive (file_content (fs w p)) of
        Take \<Rightarrow> Ok False v
      | Replace \<Rightarrow> Ok False v
      | RefusePid q \<Rightarrow> Ok True v
      | RefuseUnreadable \<Rightarrow> Err (Io invalid_utf8) v)" by auto
  with same_trans [OF u(2)] con show ?thesis
    by (intro exI [of _ v])
      (auto simp: shutdown_def should_treat_connect_error_as_not_running_def
        recoverable_connect_error_def split: claim_verdict.split)
qed

section \<open>Witnesses\<close>

definition demo_client :: client where
  "demo_client =
     with_auto_start (with_pid_file (client_new demo_sock_path) demo_pid_path) [s2b ''daemon'']"

lemma demo_client_sel [simp]:
  "c_socket_path demo_client = demo_sock_path" "c_pid_file demo_client = Some demo_pid_path"
  "c_auto_start demo_client = Some (auto_start_new [s2b ''daemon''])"
  by (simp_all add: demo_client_def with_auto_start_def with_pid_file_def client_new_def)

definition idle_world :: "bytes \<Rightarrow> world" where
  "idle_world b = base_world [[s2b ''tmp''] \<mapsto> Dir, demo_pid_path \<mapsto> File 3 b]"

lemma idle_world_sel [simp]:
  "sched (idle_world b) = []" "clock (idle_world b) = 0" "spawns (idle_world b) = []"
  "fs (idle_world b) demo_pid_path = Some (File 3 b)" "fs (idle_world b) demo_sock_path = None"
  by (simp_all add: idle_world_def spawns_def demo_sock_path_def demo_pid_path_def s2b_def)

lemma idle_unreachable: "fs w demo_sock_path = None \<Longrightarrow> sched w = [] \<Longrightarrow> unreachable demo_client w"
  by (simp add: unreachable_def)

lemma demo_timeouts:
  "0 < initial_backoff (auto_start_new q)" "0 < max_backoff (auto_start_new q)"
  "ready_timeout (auto_start_new q) = 2000000000"
  by (simp_all add: auto_start_new_def from_millis_def from_secs_def)

theorem ready_timeout_in_time_witness:
  "\<exists>v. wait_for_ready demo_client (auto_start_new [s2b ''daemon'']) (idle_world [])
         = Err (ReadyTimeout demo_sock_path 2000000000) v \<and> 2000000000 \<le> clock v"
  using ready_timeout_in_time [OF idle_unreachable demo_timeouts(1,2),
      of "idle_world []" "[s2b ''daemon'']"]
  by (auto simp: demo_timeouts(3))

theorem ready_timeout_not_early_witness:
  "\<exists>v. wait_for_ready demo_client (auto_start_new [s2b ''daemon'']) (idle_world [1])
         = Err (ReadyTimeout demo_sock_path 2000000000) v \<and> 2000000000 \<le> clock v"
proof -
  obtain v where v: "wait_for_ready demo_client (auto_start_new [s2b ''daemon'']) (idle_world [1])
         = Err (ReadyTimeout demo_sock_path 2000000000) v"
    using wait_gives_up [OF idle_unreachable demo_timeouts(1,2), of "idle_world [1]" "[s2b ''daemon'']"]
    by (auto simp: demo_timeouts(3))
  from ready_timeout_not_early [OF v] v show ?thesis by (auto simp: demo_timeouts(3))
qed

theorem only_connection_errors_are_retried_witness:
  "request (client_new demo_sock_path) quiet_libc [1] (idle_world [])
     = Err (Io (os_error NotFound)) (idle_world [])"
proof -
  have "send_request_once (client_new demo_sock_path) [1] (idle_world [])
      = Err (Io (os_error NotFound)) (idle_world [])"
    by (simp add: send_request_once_def connect_def unix_connect_def syscall_def lookup_missing
        client_new_def)
  moreover have "c_auto_start (client_new demo_sock_path) = None" by (simp add: client_new_def)
  ultimately show ?thesis
    using only_connection_errors_are_retried [of "client_new demo_sock_path" "[1]" "idle_world []" "[]"
        "idle_world []" quiet_libc "Io (os_error NotFound)"]
    by simp
qed

text \<open>Recovery where nobody listens and nobody lives starts the program, then gives up waiting.\<close>

lemma idle_recovery:
  assumes "unreachable c w" "c_auto_start c = Some a" "clock w = 0"
    and "pid_file_points_to_live_process c quiet_libc w = Ok False w"
    and "0 < initial_backoff a" "0 < max_backoff a" "ready_timeout a = 2000000000"
    and "recoverable_connect_error e"
  shows "\<exists>v. recover_if_needed c quiet_libc (Io e) w = Err (ReadyTimeout (c_socket_path c) 2000000000) v \<and>
             spawns v = spawns w @ [ASpawn (program a) (args a)]"
proof -
  define u where "u = record_action (ASpawn (program a) (args a)) w"
  have sp: "spawn_detached quiet_libc a w = Ok () u"
    using assms(1) by (simp add: spawn_detached_def syscall_def model_libc_def u_def unreachable_def)
  have "unreachable c u" "clock u = 0" using assms(1,3) by (simp_all add: unreachable_def u_def)
  with wait_gives_up [OF this(1) assms(5,6)] assms(7) obtain v where
    v: "wait_for_ready c a u = Err (ReadyTimeout (c_socket_path c) 2000000000) v" by auto
  have "spawns v = spawns u" using spawn.wait_for_ready_R [of u c a] v by simp
  with v sp assms(2,4,8) show ?thesis
    by (auto simp: recover_if_needed_def u_def spawns_def)
qed


theorem shutdown_absent_daemon_witness:
  "\<exists>v. shutdown demo_client quiet_libc (idle_world (pid_line 9)) = Ok False v"
proof -
  have "absent_daemon (demo_paths \<union> demo_sock_paths) demo_client demo_pid_path (idle_world (pid_line 9))"
    by (simp add: absent_daemon_def placed_def plain_entry_def)
      (simp add: demo_pid_path_def idle_world_def s2b_def demo_sock_path_def)
  from shutdown_absent_daemon [OF this model_alive, of "\<lambda>_. False"] show ?thesis
    by (auto simp: claim_decision_def parse_pid_line)
qed

end
