(* ===== verification/End_To_End.thy ===== *)
theory End_To_End imports Daemon_Properties Client_Properties begin

text \<open>
  The client and the daemon together: the bytes one side writes are the bytes the other side reads,
  and what the client gets back is what the application's handler returned.
\<close>

section \<open>The two ends of a connection\<close>

text \<open>A fresh end: nothing written yet, and what is written is taken.\<close>

definition fresh :: "stream \<Rightarrow> bool" where
  "fresh s \<longleftrightarrow> clean (inbox s) \<and> room s = [] \<and> flush_result s = None \<and> outbox s = []"

text \<open>The client's end \<open>cs\<close> and the daemon's end \<open>ds\<close> of one connection on which the client sends a
  frame and the daemon handles it in state \<open>st\<close>: the daemon reads what the client writes, and the
  client reads what the daemon's handling leaves in its outbox.\<close>

definition joined :: "'s daemon \<Rightarrow> 's \<Rightarrow> frame_kind \<Rightarrow> bytes \<Rightarrow> stream \<Rightarrow> stream \<Rightarrow> bool" where
  "joined d st k pl cs ds \<longleftrightarrow>
     fresh cs \<and> fresh ds \<and> unread ds = frame_bytes k 0 pl \<and>
     (\<forall>out st1 ds1. process_connection d ds st = Ok out (st1, ds1) \<longrightarrow> unread cs = outbox ds1)"

text \<open>The client connects to a live socket and the next connection is \<open>cs\<close>.\<close>

definition reaches :: "client \<Rightarrow> world \<Rightarrow> stream \<Rightarrow> bool" where
  "reaches c w cs \<longleftrightarrow>
     calm {c_socket_path c} w \<and> (\<exists>i. fs w (c_socket_path c) = Some (Sock i True)) \<and>
     (\<exists>rest. dials w = cs # rest)"

lemma connect_reaches:
  assumes "reaches c w cs"
  shows "\<exists>v. connect (c_socket_path c) w = Ok cs v \<and> served v = served w"
proof -
  obtain v where v: "enter w = (None, v)" "same {c_socket_path c} w v"
    using enter_calm [of "{c_socket_path c}" w] assms by (auto simp: reaches_def)
  moreover have "dials v = dials w" "served v = served w" using v(2) by (simp_all add: same_def)
  moreover have "fs v (c_socket_path c) = fs w (c_socket_path c)" using v(2) by (simp add: same_fs)
  ultimately show ?thesis
    using assms
    by (auto simp: reaches_def connect_def unix_connect_def syscall_def lookup_plain)
qed

text \<open>One exchange, seen from both ends.\<close>

lemma exchange:
  assumes "joined d st k pl cs ds" "length pl \<le> max_payload_len (config d)" "length pl < 2 ^ 32"
    and "answer d st \<lparr>kind = k, flags = 0, payload = pl\<rparr> = (rk, reply, out, st1)"
    and "length reply \<le> m" "length reply < 2 ^ 32"
  shows "(\<exists>ds1. process_connection d ds st = Ok out (st1, ds1)) \<and>
         (\<exists>cs1 cs2. write_frame k pl cs = Ok () cs1 \<and> outbox cs1 = unread ds \<and> outbox cs2 = outbox cs1 \<and>
            read_frame m cs1 = Ok \<lparr>kind = rk, flags = 0, payload = reply\<rparr> cs2)"
proof -
  have j: "clean (inbox cs)" "room cs = []" "flush_result cs = None" "outbox cs = []"
    "clean (inbox ds)" "room ds = []" "flush_result ds = None" "outbox ds = []"
    "unread ds = frame_bytes k 0 pl"
    using assms(1) by (auto simp: joined_def fresh_def)
  obtain f ds0 where f: "read_frame (max_payload_len (config d)) ds
      = Ok \<lparr>kind = k, flags = 0, payload = pl\<rparr> ds0"
    using read_frame_bytes [OF j(5), of k 0 pl "[]"] assms(2,3) j(9) by auto
  from read_frame_final [of "max_payload_len (config d)" ds ds0] f j
  have "room ds0 = []" "flush_result ds0 = None" "outbox ds0 = []" by auto
  with write_frame_ready [of ds0 reply rk] f assms(4,6) obtain ds1 where
    ds1: "process_connection d ds st = Ok out (st1, ds1)" "outbox ds1 = frame_bytes rk 0 reply"
    by (simp add: process_connection_answer)
  have un: "unread cs = frame_bytes rk 0 reply @ []"
    using assms(1) ds1 by (auto simp: joined_def)
  define cs1 where "cs1 = cs\<lparr>outbox := frame_bytes k 0 pl\<rparr>"
  have w: "write_frame k pl cs = Ok () cs1"
    using write_frame_ready [OF j(2,3) assms(3), of k] j(4) by (simp add: cs1_def)
  have "clean (inbox cs1)" "unread cs1 = frame_bytes rk 0 reply @ []"
    using j(1) un by (simp_all add: cs1_def)
  from read_frame_bytes [OF this assms(5,6)] obtain cs2 where
    r: "read_frame m cs1 = Ok \<lparr>kind = rk, flags = 0, payload = reply\<rparr> cs2" by auto
  with read_frame_final [of m cs1 cs2] have "outbox cs2 = outbox cs1" by auto
  with ds1 w r j(9) show ?thesis by (auto simp: cs1_def)
qed

lemma request_joined:
  assumes "connect (c_socket_path c) w = Ok cs v" "joined d st KRequest pl cs ds"
    and "length pl \<le> max_payload_len (config d)" "length pl < 2 ^ 32"
    and "on_request d st pl = (r, st1)"
    and "case r of Inl msg \<Rightarrow> utf8_valid msg \<and> length msg \<le> c_max_payload_len c \<and> length msg < 2 ^ 32
              | Inr resp \<Rightarrow> length resp \<le> c_max_payload_len c \<and> length resp < 2 ^ 32"
  shows "(\<exists>ds1. process_connection d ds st = Ok Continue (st1, ds1)) \<and>
         (\<exists>cs1. send_request_once c pl w =
              (case r of Inl msg \<Rightarrow> Err (DaemonReturnedError msg) (close_stream cs1 v)
                       | Inr resp \<Rightarrow> Ok resp (close_stream cs1 v)) \<and>
            outbox cs1 = unread ds)"
proof -
  define rk reply where "rk = (case r of Inl _ \<Rightarrow> KError | Inr _ \<Rightarrow> KResponse)"
    and "reply = (case r of Inl msg \<Rightarrow> msg | Inr resp \<Rightarrow> resp)"
  have a: "answer d st \<lparr>kind = KRequest, flags = 0, payload = pl\<rparr> = (rk, reply, Continue, st1)"
    using assms(5) by (simp add: answer_def rk_def reply_def split: sum.split)
  have len: "length reply \<le> c_max_payload_len c" "length reply < 2 ^ 32"
    using assms(6) by (auto simp: reply_def split: sum.splits)
  from exchange [OF assms(2-4) a len] obtain ds1 cs1 cs2 where
    x: "process_connection d ds st = Ok Continue (st1, ds1)" "write_frame KRequest pl cs = Ok () cs1"
    "outbox cs2 = unread ds"
    "read_frame (c_max_payload_len c) cs1 = Ok \<lparr>kind = rk, flags = 0, payload = reply\<rparr> cs2"
    by auto
  have "send_request_once c pl w =
      (case r of Inl msg \<Rightarrow> Err (DaemonReturnedError msg) (close_stream cs2 v)
               | Inr resp \<Rightarrow> Ok resp (close_stream cs2 v))"
    using assms(1) x(2,4) assms(6)
    by (auto simp: send_request_once_def on_stream_def rk_def reply_def utf8_lossy_valid_id
        split: sum.splits)
  with x(1,3) show ?thesis by auto
qed

lemma request_round:
  assumes "reaches c w cs" "joined d st KRequest pl cs ds"
    and "length pl \<le> max_payload_len (config d)" "length pl < 2 ^ 32"
    and "on_request d st pl = (r, st1)"
    and "case r of Inl msg \<Rightarrow> utf8_valid msg \<and> length msg \<le> c_max_payload_len c \<and> length msg < 2 ^ 32
              | Inr resp \<Rightarrow> length resp \<le> c_max_payload_len c \<and> length resp < 2 ^ 32"
  shows "(\<exists>ds1. process_connection d ds st = Ok Continue (st1, ds1)) \<and>
         (\<exists>v cs1. send_request_once c pl w =
              (case r of Inl msg \<Rightarrow> Err (DaemonReturnedError msg) v | Inr resp \<Rightarrow> Ok resp v) \<and>
            served v = served w @ [cs1] \<and> outbox cs1 = unread ds)"
proof -
  obtain v where v: "connect (c_socket_path c) w = Ok cs v" "served v = served w"
    using connect_reaches [OF assms(1)] by blast
  from request_joined [OF v(1) assms(2-6)] obtain ds1 cs1 where
    "process_connection d ds st = Ok Continue (st1, ds1)" "outbox cs1 = unread ds"
    "send_request_once c pl w = (case r of Inl msg \<Rightarrow> Err (DaemonReturnedError msg) (close_stream cs1 v)
                                         | Inr resp \<Rightarrow> Ok resp (close_stream cs1 v))" by auto
  with v(2) show ?thesis
    by (intro conjI exI [of _ "close_stream cs1 v"] exI [of _ cs1] exI [of _ ds1])
      (simp_all add: close_stream_def)
qed

text \<open>C10: End to end: a request that a client sends to a daemon reaches the application's handler
  unchanged, and the client gets exactly what the handler returned: the response's bytes, or, when
  the handler failed, its error message as \<^verbatim>\<open>DaemonReturnedError\<close>, which survives the way through
  the wire as it is. The connection carries one frame each way.\<close>

theorem request_end_to_end:
  assumes "reaches c w cs" "joined d st KRequest pl cs ds"
    and "length pl \<le> max_payload_len (config d)" "length pl < 2 ^ 32"
    and "on_request d st pl = (r, st1)"
    and "case r of Inl msg \<Rightarrow> utf8_valid msg \<and> length msg \<le> c_max_payload_len c \<and> length msg < 2 ^ 32
              | Inr resp \<Rightarrow> length resp \<le> c_max_payload_len c \<and> length resp < 2 ^ 32"
  shows "(\<exists>ds1. process_connection d ds st = Ok Continue (st1, ds1)) \<and>
         (\<exists>v cs1. send_request_once c pl w =
              (case r of Inl msg \<Rightarrow> Err (DaemonReturnedError msg) v | Inr resp \<Rightarrow> Ok resp v) \<and>
            served v = served w @ [cs1] \<and> outbox cs1 = unread ds)"
  using assms by (rule request_round)

lemma ping_joined:
  assumes "connect (c_socket_path c) w = Ok cs v" "joined d st KPing [] cs ds"
  shows "(\<exists>ds1. process_connection d ds st = Ok Continue (st, ds1)) \<and>
         (\<exists>cs1. try_ping_once c w = Ok () (close_stream cs1 v) \<and> outbox cs1 = unread ds)"
proof -
  have a: "answer d st \<lparr>kind = KPing, flags = 0, payload = []\<rparr> = (KPong, [], Continue, st)"
    by (simp add: answer_def)
  from exchange [OF assms(2) _ _ a, of "c_max_payload_len c"] obtain ds1 cs1 cs2 where
    x: "process_connection d ds st = Ok Continue (st, ds1)" "write_frame KPing [] cs = Ok () cs1"
    "read_frame (c_max_payload_len c) cs1 = Ok \<lparr>kind = KPong, flags = 0, payload = []\<rparr> cs2"
    "outbox cs2 = unread ds"
    by auto
  have "try_ping_once c w = Ok () (close_stream cs2 v)"
    using assms(1) x(2,3) by (simp add: try_ping_once_def on_stream_def)
  with x(1,4) show ?thesis by auto
qed

text \<open>A running daemon answers a ping: \<^verbatim>\<open>ping\<close> on a client that reaches the daemon succeeds, leaves
  the application's state as it was, and starts no process.\<close>

theorem ping_end_to_end:
  assumes "reaches c w cs" "joined d st KPing [] cs ds"
  shows "(\<exists>ds1. process_connection d ds st = Ok Continue (st, ds1)) \<and>
         (\<exists>v. ping c L w = Ok () v \<and> spawns v = spawns w)"
proof -
  obtain u ds1 where p: "try_ping_once c w = Ok () u" "process_connection d ds st = Ok Continue (st, ds1)"
    using connect_reaches [OF assms(1)] ping_joined [OF _ assms(2), of c w] by blast
  with spawn.try_ping_once_R [of w c] have "spawns u = spawns w" by simp
  with p show ?thesis by (auto simp: ping_def)
qed

section \<open>Witnesses\<close>

definition live_world :: "stream list \<Rightarrow> world" where
  "live_world ss = (base_world [[s2b ''tmp''] \<mapsto> Dir, demo_sock_path \<mapsto> Sock 5 True])\<lparr>dials := ss\<rparr>"

lemma live_reaches: "reaches demo_client (live_world (cs # rest)) cs"
  by (simp add: reaches_def live_world_def)

lemma demo_joined:
  assumes "answer d st \<lparr>kind = k, flags = 0, payload = pl\<rparr> = (rk, reply, out, st1)"
    and "length pl \<le> max_payload_len (config d)" "length pl < 2 ^ 32" "length reply < 2 ^ 32"
  shows "joined d st k pl (demo_stream [Chunk (frame_bytes rk 0 reply)]) (demo_stream [Chunk (frame_bytes k 0 pl)])"
proof -
  let ?ds = "demo_stream [Chunk (frame_bytes k 0 pl)]"
  obtain ds0 where f: "read_frame (max_payload_len (config d)) ?ds
      = Ok \<lparr>kind = k, flags = 0, payload = pl\<rparr> ds0"
    using read_frame_bytes [of ?ds k 0 pl "[]"] assms(2,3) by auto
  from read_frame_final [of "max_payload_len (config d)" ?ds ds0] f
  have "room ds0 = []" "flush_result ds0 = None" "outbox ds0 = []" by auto
  with write_frame_ready [of ds0 reply rk] f assms(1,4) show ?thesis
    by (auto simp: joined_def fresh_def process_connection_answer)
qed

theorem request_end_to_end_witness:
  "\<exists>v. send_request_once demo_client [1, 2]
         (live_world [demo_stream [Chunk (frame_bytes KResponse 0 [1, 2])]]) = Ok [1, 2] v"
proof -
  have a: "answer echo_daemon 0 \<lparr>kind = KRequest, flags = 0, payload = [1, 2]\<rparr>
      = (KResponse, [1, 2], Continue, 1)"
    by (simp add: answer_def)
  have j: "joined echo_daemon 0 KRequest [1, 2] (demo_stream [Chunk (frame_bytes KResponse 0 [1, 2])])
      (demo_stream [Chunk (frame_bytes KRequest 0 [1, 2])])"
    by (rule demo_joined [OF a]) simp_all
  have "c_max_payload_len demo_client = DEFAULT_MAX_PAYLOAD_LEN"
    by (simp add: demo_client_def with_auto_start_def with_pid_file_def client_new_def)
  with request_end_to_end [OF live_reaches j, of "Inr [1, 2]" 1 "[]"] show ?thesis
    by (auto simp: DEFAULT_MAX_PAYLOAD_LEN_def)
qed

theorem ping_end_to_end_witness:
  "\<exists>v. ping demo_client quiet_libc (live_world [demo_stream [Chunk (frame_bytes KPong 0 [])]]) = Ok () v"
proof -
  have a: "answer echo_daemon 0 \<lparr>kind = KPing, flags = 0, payload = []\<rparr> = (KPong, [], Continue, 0)"
    by (simp add: answer_def)
  have j: "joined echo_daemon 0 KPing [] (demo_stream [Chunk (frame_bytes KPong 0 [])])
      (demo_stream [Chunk (frame_bytes KPing 0 [])])"
    by (rule demo_joined [OF a]) simp_all
  from ping_end_to_end [OF live_reaches j, where L = quiet_libc] show ?thesis by blast
qed

end
