(* ===== verification/Auto_Start.thy ===== *)
theory Auto_Start imports End_To_End begin

text \<open>
  A request that starts the daemon and succeeds: the client finds nobody, starts the program, waits
  until the daemon listens, and is answered. The daemon's coming up is an event of the world, after
  any number of calls.
\<close>

section \<open>A daemon about to listen\<close>

text \<open>Until then nothing fails, nobody touches the paths of \<open>P\<close>, and time passes only while the
  client sleeps.\<close>

definition harmless :: "path set \<Rightarrow> event list \<times> io_error option \<Rightarrow> bool" where
  "harmless P = (\<lambda>(evs, fault). fault = None \<and> (\<forall>e \<in> set evs. avoids P e \<and> (\<forall>d. e \<noteq> Elapse d)))"

text \<open>The socket \<open>sp\<close> is live from the \<open>n\<close>-th call on, for \<open>n = 0\<close> already.\<close>

definition coming :: "path set \<Rightarrow> path \<Rightarrow> nat \<Rightarrow> world \<Rightarrow> bool" where
  "coming P sp n w \<longleftrightarrow>
     (case n of
        0 \<Rightarrow> sched w = [] \<and> (\<exists>i. fs w sp = Some (Sock i True))
      | Suc m \<Rightarrow>
          fs w sp = None \<and>
          (\<exists>pre i. sched w = pre @ [([PutNode sp (Sock i True)], None)] \<and> length pre = m \<and>
             (\<forall>x \<in> set pre. harmless (insert sp P) x)))"

definition still :: "path set \<Rightarrow> world \<Rightarrow> world \<Rightarrow> bool" where
  "still P w u \<longleftrightarrow>
     (\<forall>p \<in> P. fs u p = fs w p) \<and> clock u = clock w \<and> dials u = dials w \<and> served u = served w \<and>
     trace u = trace w"

lemma still_trans: "still P u v \<Longrightarrow> still P v w \<Longrightarrow> still P u w"
  by (simp add: still_def)

lemma harmless_clock:
  "\<forall>e \<in> set evs. \<forall>d. e \<noteq> Elapse d \<Longrightarrow> clock (fold apply_event evs w) = clock w"
proof (induction evs arbitrary: w)
  case (Cons e evs)
  then have "clock (apply_event e w) = clock w" by (cases e) auto
  with Cons show ?case by simp
qed simp

lemma harmless_still:
  assumes "harmless P (evs, fault)"
  shows "still P w (fold apply_event evs (w\<lparr>sched := rest\<rparr>))"
  using assms fold_events_fs [of evs P _ "w\<lparr>sched := rest\<rparr>"]
  by (auto simp: harmless_def still_def harmless_clock)

lemma enter_coming:
  assumes "coming P sp n w" "sp \<notin> P"
  obtains u where "enter w = (None, u)" "coming P sp (n - 1) u" "still P w u"
proof (cases n)
  case 0
  with assms that [of w] show ?thesis by (simp add: coming_def enter_idle still_def)
next
  case (Suc m)
  then obtain pre i where s: "sched w = pre @ [([PutNode sp (Sock i True)], None)]" "length pre = m"
    "\<forall>x \<in> set pre. harmless (insert sp P) x" "fs w sp = None"
    using assms(1) by (auto simp: coming_def)
  show ?thesis
  proof (cases pre)
    case Nil
    let ?u = "w\<lparr>sched := [], fs := (fs w)(sp := Some (Sock i True))\<rparr>"
    have "enter w = (None, ?u)" using s Nil by (simp add: enter_def)
    moreover have "coming P sp 0 ?u" "still P w ?u" using assms(2) by (auto simp: coming_def still_def)
    ultimately show ?thesis using that s(2) Nil Suc by simp
  next
    case (Cons x pre1)
    obtain evs fault where x: "x = (evs, fault)" by fastforce
    let ?u = "fold apply_event evs (w\<lparr>sched := pre1 @ [([PutNode sp (Sock i True)], None)]\<rparr>)"
    have h: "harmless (insert sp P) (evs, fault)" using s(3) Cons x by simp
    have "enter w = (None, ?u)" using s(1) Cons x h by (simp add: enter_def harmless_def)
    moreover have st: "still (insert sp P) w ?u" by (rule harmless_still [OF h])
    moreover have "coming P sp m ?u"
      using s Cons st by (auto simp: coming_def still_def)
    ultimately show ?thesis using that [of ?u] Suc by (simp add: still_def)
  qed
qed

lemma coming_absent: "coming P sp (Suc n) w \<Longrightarrow> fs w sp = None"
  by (simp add: coming_def)

lemma coming_upd [simp]:
  "coming P sp n (w\<lparr>clock := c\<rparr>) = coming P sp n w" "coming P sp n (record_action a w) = coming P sp n w"
  "coming P sp n (w\<lparr>dials := ds\<rparr>) = coming P sp n w" "coming P sp n (close_stream s w) = coming P sp n w"
  by (simp_all add: coming_def close_stream_def split: nat.split)

lemma connect_coming:
  assumes "coming P sp n w" "sp \<notin> P" "2 \<le> n"
  obtains u where "connect sp w = Err (os_error NotFound) u" "coming P sp (n - 1) u" "still P w u"
proof -
  obtain u where u: "enter w = (None, u)" "coming P sp (n - 1) u" "still P w u"
    by (rule enter_coming [OF assms(1,2)])
  obtain m where "n = 2 + m" using assms(3) nat_le_iff_add by blast
  then have "fs u sp = None" using coming_absent [of P sp m u] u(2) by simp
  with u show ?thesis
    by (intro that [of u]) (simp_all add: connect_def unix_connect_def syscall_def lookup_missing)
qed

lemma connect_live:
  assumes "coming P sp n w" "sp \<notin> P" "n \<le> 1" "dials w = s # rest"
  obtains u where "connect sp w = Ok s (u\<lparr>dials := rest\<rparr>)" "coming P sp 0 u" "still P w u"
proof -
  obtain u where u: "enter w = (None, u)" "coming P sp 0 u" "still P w u"
    using enter_coming [OF assms(1,2)] assms(3) by (metis diff_is_0_eq)
  then obtain i where "fs u sp = Some (Sock i True)" by (auto simp: coming_def)
  with u assms(4) show ?thesis
    by (intro that [of u])
      (simp_all add: connect_def unix_connect_def syscall_def lookup_plain still_def)
qed

section \<open>The client's steps until then\<close>

definition names_nobody :: "(u32 \<Rightarrow> bool) \<Rightarrow> path set \<Rightarrow> client \<Rightarrow> world \<Rightarrow> bool" where
  "names_nobody alive P c w \<longleftrightarrow>
     (case c_pid_file c of
        None \<Rightarrow> True
      | Some p \<Rightarrow>
          p \<in> P \<and>
          (case fs w p of
             None \<Rightarrow> True
           | Some (File i b) \<Rightarrow>
               utf8_valid b \<and> (case parse_u32 (trim b) of None \<Rightarrow> True | Some q \<Rightarrow> \<not> alive q)
           | Some _ \<Rightarrow> False))"

lemma names_nobody_still: "still P w u \<Longrightarrow> names_nobody alive P c u = names_nobody alive P c w"
proof (cases "c_pid_file c")
  case (Some p)
  assume "still P w u"
  then have "p \<in> P \<Longrightarrow> fs u p = fs w p" by (simp add: still_def)
  with Some show ?thesis by (cases "p \<in> P") (simp_all add: names_nobody_def)
qed (simp add: names_nobody_def)

lemma pid_file_coming:
  assumes "coming P sp n w" "sp \<notin> P" "names_nobody alive P c w" "\<And>q v. pid_alive L q v = alive q"
  obtains u k where "pid_file_points_to_live_process c L w = Ok False u" "k \<le> 2"
    "coming P sp (n - k) u" "still P w u"
proof (cases "c_pid_file c")
  case None
  with assms(1) that [of w 0] show ?thesis
    by (simp add: pid_file_points_to_live_process_def still_def)
next
  case (Some p)
  obtain u where u: "enter w = (None, u)" "coming P sp (n - 1) u" "still P w u"
    by (rule enter_coming [OF assms(1,2)])
  have p: "p \<in> P" "fs u p = fs w p" using assms(3) Some u(3) by (auto simp: names_nobody_def still_def)
  show ?thesis
  proof (cases "fs w p")
    case None
    with u p Some show ?thesis
      by (intro that [of u 1])
        (simp_all add: pid_file_points_to_live_process_def read_pid_def read_to_string_def
          syscall_def lookup_missing)
  next
    case nd: (Some nd)
    then obtain i b where b: "nd = File i b" "utf8_valid b"
      "case parse_u32 (trim b) of None \<Rightarrow> True | Some q \<Rightarrow> \<not> alive q"
      using assms(3) Some by (auto simp: names_nobody_def split: node.splits)
    have r: "read_pid p w = Ok (parse_u32 (trim b)) u"
      using u(1) p nd b(1,2)
      by (simp add: read_pid_def read_to_string_def syscall_def lookup_plain split: option.split)
    show ?thesis
    proof (cases "parse_u32 (trim b)")
      case None
      with r u Some show ?thesis
        by (intro that [of u 1]) (simp_all add: pid_file_points_to_live_process_def)
    next
      case (Some q)
      obtain x where x: "enter u = (None, x)" "coming P sp (n - 1 - 1) x" "still P u x"
        by (rule enter_coming [OF u(2) assms(2)])
      with r u b(3) Some \<open>c_pid_file c = Some p\<close> show ?thesis
        by (intro that [of x 2])
          (auto simp: pid_file_points_to_live_process_def is_process_alive_def assms(4)
            numeral_2_eq_2 intro: still_trans)
    qed
  qed
qed

lemma ready_loop_coming:
  assumes "joined d st KPing [] ps ds" "c_socket_path c \<notin> P" "max_backoff a \<le> B"
  shows "coming P (c_socket_path c) n w \<Longrightarrow> dials w = ps # rest \<Longrightarrow> backoff \<le> B \<Longrightarrow>
    clock w + (Suc n div 3) * B < deadline \<Longrightarrow>
    \<exists>v s. ready_loop c a deadline backoff w = Some (Ok () v) \<and> coming P (c_socket_path c) 0 v \<and>
        dials v = rest \<and> trace v = trace w \<and> clock v \<le> clock w + (Suc n div 3) * B \<and>
        served v = served w @ [s] \<and> outbox s = unread ds"
proof (induction n arbitrary: w backoff rule: less_induct)
  case (less n)
  let ?sp = "c_socket_path c"
  show ?case
  proof (cases "n \<le> 1")
    case True
    obtain u where u: "connect ?sp w = Ok ps (u\<lparr>dials := rest\<rparr>)" "coming P ?sp 0 u" "still P w u"
      by (rule connect_live [OF less.prems(1) assms(2) True less.prems(2)])
    from ping_joined [OF u(1) assms(1)] obtain s where
      s: "try_ping_once c w = Ok () (close_stream s (u\<lparr>dials := rest\<rparr>))" "outbox s = unread ds"
      by auto
    then have "ready_loop c a deadline backoff w = Some (Ok () (close_stream s (u\<lparr>dials := rest\<rparr>)))"
      by (subst ready_loop.simps) simp
    with s(2) u(2,3) show ?thesis
      by (intro exI [of _ "close_stream s (u\<lparr>dials := rest\<rparr>)"] exI [of _ s])
        (simp add: still_def, simp add: close_stream_def)
  next
    case False
    then have n: "2 \<le> n" by simp
    obtain u where u: "connect ?sp w = Err (os_error NotFound) u" "coming P ?sp (n - 1) u" "still P w u"
      by (rule connect_coming [OF less.prems(1) assms(2) n])
    obtain x where x: "enter u = (None, x)" "coming P ?sp (n - 1 - 1) x" "still P u x"
      by (rule enter_coming [OF u(2) assms(2)])
    obtain y where y: "enter x = (None, y)" "coming P ?sp (n - 1 - 1 - 1) y" "still P x y"
      by (rule enter_coming [OF x(2) assms(2)])
    define z where "z = y\<lparr>clock := clock y + backoff\<rparr>"
    define b where "b = min (saturating_double backoff) (max_backoff a)"
    have st: "still P w y" using u(3) x(3) y(3) still_trans by blast
    have div: "Suc n div 3 = Suc (Suc (n - 3) div 3)" if "2 < n" using that by presburger
    have div2: "Suc n div 3 = 1 \<and> Suc (n - 3) div 3 = 0" if "n = 2" using that by simp
    have time: "clock z + (Suc (n - 3) div 3) * B \<le> clock w + (Suc n div 3) * B"
      using div div2 n less.prems(3) st by (cases "n = 2") (auto simp: z_def still_def)
    have before: "clock x < deadline"
      using less.prems(4) u(3) x(3) by (simp add: still_def)
    have "try_ping_once c w = Err (Io (os_error NotFound)) u"
      using u(1) by (simp add: try_ping_once_def)
    then have loop: "ready_loop c a deadline backoff w = ready_loop c a deadline b z"
      using x(1) y(1) before
      by (subst ready_loop.simps)
        (simp add: recoverable_connect_error_def sleep_def b_def z_def)
    have "coming P ?sp (n - 3) z" "dials z = ps # rest" "b \<le> B" "n - 3 < n"
      using y(2) n st less.prems(2) assms(3) by (simp_all add: z_def still_def b_def numeral_eq_Suc)
    from less.IH [OF this(4,1,2,3)] time less.prems(4) obtain v s where
      "ready_loop c a deadline b z = Some (Ok () v)" "coming P ?sp 0 v" "dials v = rest"
      "trace v = trace z" "clock v \<le> clock z + (Suc (n - 3) div 3) * B"
      "served v = served z @ [s]" "outbox s = unread ds"
      by fastforce
    with loop time st show ?thesis by (auto simp: z_def still_def)
  qed
qed

section \<open>The request\<close>

lemma spawn_coming:
  assumes "coming P sp n w" "sp \<notin> P" "\<And>u. fst (setsid L u) \<noteq> - 1"
  obtains u where "spawn_detached L a w = Ok () (record_action (ASpawn (program a) (args a)) u)"
    "coming P sp (n - 1) u" "still P w u"
proof -
  obtain u where u: "enter w = (None, u)" "coming P sp (n - 1) u" "still P w u"
    by (rule enter_coming [OF assms(1,2)])
  with assms(3) [of u] show ?thesis
    by (intro that [of u]) (auto simp: spawn_detached_def syscall_def split: prod.split)
qed

text \<open>C11: Auto-start works end to end: a client that finds nobody listening and no live owner in the PID
  file starts its daemon, once, waits, and as soon as the daemon listens (any number of system calls
  later, if that is within the time to wait) sends its request and returns exactly what the
  application's handler returned; it has used two connections, a ping and the request.\<close>

theorem auto_start_end_to_end:
  assumes "coming P (c_socket_path c) n w" "2 \<le> n" "c_socket_path c \<notin> P"
    and "c_auto_start c = Some a" "names_nobody alive P c w"
    and "\<And>q v. pid_alive L q v = alive q" "\<And>u. fst (setsid L u) \<noteq> - 1"
    and "dials w = ps # rs # rest"
    and "joined d st0 KPing [] ps ds0" "joined d st KRequest pl rs ds"
    and "length pl \<le> max_payload_len (config d)" "length pl < 2 ^ 32"
    and "on_request d st pl = (Inr resp, st1)" "length resp \<le> c_max_payload_len c" "length resp < 2 ^ 32"
    and "(Suc n div 3) * max (initial_backoff a) (max_backoff a) < ready_timeout a"
    and "clock w + ready_timeout a < 2 ^ 63 * 1000000000"
  shows "(\<exists>ds1. process_connection d ds st = Ok Continue (st1, ds1)) \<and>
    (\<exists>v s1 s2. request c L pl w = Ok resp v \<and>
       spawns v = spawns w @ [ASpawn (program a) (args a)] \<and>
       served v = served w @ [s1, s2] \<and> outbox s1 = unread ds0 \<and> outbox s2 = unread ds \<and>
       clock v \<le> clock w + (Suc n div 3) * max (initial_backoff a) (max_backoff a))"
proof -
  let ?sp = "c_socket_path c" and ?B = "max (initial_backoff a) (max_backoff a)"
  obtain u where u: "connect ?sp w = Err (os_error NotFound) u" "coming P ?sp (n - 1) u" "still P w u"
    by (rule connect_coming [OF assms(1,3,2)])
  have "names_nobody alive P c u"
    using assms(5) names_nobody_still [OF u(3)] by simp
  from pid_file_coming [OF u(2) assms(3) this assms(6)] obtain k x where
    x: "pid_file_points_to_live_process c L u = Ok False x" "coming P ?sp (n - 1 - k) x" "still P u x"
    by metis
  obtain y where y: "spawn_detached L a x = Ok () (record_action (ASpawn (program a) (args a)) y)"
    "coming P ?sp (n - 1 - k - 1) y" "still P x y"
    by (rule spawn_coming [OF x(2) assms(3,7)])
  let ?y = "record_action (ASpawn (program a) (args a)) y"
  have "coming P ?sp (n - 1 - k - 1) ?y" using y(2) by simp
  then obtain z where z: "enter ?y = (None, z)" "coming P ?sp (n - 1 - k - 1 - 1) z" "still P ?y z"
    by (rule enter_coming [OF _ assms(3)])
  let ?m = "n - 1 - k - 1 - 1"
  have st: "clock z = clock w" "dials z = ps # rs # rest" "served z = served w"
    "trace z = trace w @ [ASpawn (program a) (args a)]"
    using u(3) x(3) y(3) z(3) assms(8) by (simp_all add: still_def)
  have m: "(Suc ?m div 3) * ?B \<le> (Suc n div 3) * ?B" by (intro mult_le_mono div_le_mono) auto
  have "clock z + (Suc ?m div 3) * ?B < clock w + ready_timeout a"
    using m assms(16) st(1) by linarith
  from ready_loop_coming [OF assms(9,3) _ z(2) st(2) _ this, of a "initial_backoff a"]
  obtain v s1 where
    v: "ready_loop c a (clock w + ready_timeout a) (initial_backoff a) z = Some (Ok () v)"
    "coming P ?sp 0 v" "dials v = rs # rest" "trace v = trace z"
    "clock v \<le> clock z + (Suc ?m div 3) * ?B" "served v = served z @ [s1]" "outbox s1 = unread ds0"
    by auto
  have ready: "wait_for_ready c a ?y = Ok () v"
    using v(1) z(1) st(1) assms(17) by (simp add: wait_for_ready_def now_def instant_add_def)
  have first: "send_request_once c pl w = Err (Io (os_error NotFound)) u"
    using u(1) by (simp add: send_request_once_def)
  obtain t where t: "connect ?sp v = Ok rs (t\<lparr>dials := rest\<rparr>)" "still P v t"
    using connect_live [OF v(2) assms(3) _ v(3)] by (metis le_numeral_extra(3) zero_le)
  from request_joined [OF t(1) assms(10-13)] assms(14,15) obtain ds1 s2 where
    r: "process_connection d ds st = Ok Continue (st1, ds1)" "outbox s2 = unread ds"
    "send_request_once c pl v = Ok resp (close_stream s2 (t\<lparr>dials := rest\<rparr>))"
    by auto
  have "request c L pl w = Ok resp (close_stream s2 (t\<lparr>dials := rest\<rparr>))"
    using first x(1) y(1) ready r(3) assms(4)
    by (simp add: request_def recover_if_needed_def recoverable_connect_error_def)
  moreover have "spawns (close_stream s2 (t\<lparr>dials := rest\<rparr>)) = spawns w @ [ASpawn (program a) (args a)]"
    using t(2) v(4) st(4) by (simp add: spawns_def close_stream_def still_def)
  moreover have "clock (close_stream s2 (t\<lparr>dials := rest\<rparr>)) \<le> clock w + (Suc n div 3) * ?B"
  proof -
    have "clock (close_stream s2 (t\<lparr>dials := rest\<rparr>)) = clock v"
      using t(2) by (simp add: close_stream_def still_def)
    with v(5) m st(1) show ?thesis by linarith
  qed
  moreover have "served (close_stream s2 (t\<lparr>dials := rest\<rparr>)) = served w @ [s1, s2]"
    using t(2) v(6) st(3) by (simp add: close_stream_def still_def)
  ultimately show ?thesis using r(1,2) v(7) by blast
qed

section \<open>Witness\<close>

text \<open>The daemon listens from the client's sixth call on; its old PID file names a dead process.\<close>

definition starting_world :: "stream list \<Rightarrow> world" where
  "starting_world ss =
     (idle_world (pid_line 9))
       \<lparr>dials := ss,
        sched := [([], None), ([Signal], None), ([], None), ([ProcUp 5], None), ([], None),
                  ([PutNode demo_sock_path (Sock 9 True)], None)]\<rparr>"

lemma starting_coming: "coming {demo_pid_path} demo_sock_path 6 (starting_world ss)"
proof -
  let ?pre = "[([], None), ([Signal], None), ([], None), ([ProcUp 5], None), ([], None)]
    :: (event list \<times> io_error option) list"
  have "sched (starting_world ss) = ?pre @ [([PutNode demo_sock_path (Sock 9 True)], None)]"
    by (simp add: starting_world_def)
  moreover have "length ?pre = 5" "\<forall>x \<in> set ?pre. harmless {demo_sock_path, demo_pid_path} x"
    by (simp_all add: harmless_def)
  moreover have "fs (starting_world ss) demo_sock_path = None" by (simp add: starting_world_def)
  ultimately have "coming {demo_pid_path} demo_sock_path (Suc 5) (starting_world ss)"
    unfolding coming_def by (simp only: nat.case) blast
  then show ?thesis by simp
qed

theorem auto_start_end_to_end_witness:
  "\<exists>v. request demo_client quiet_libc [1, 2]
         (starting_world [demo_stream [Chunk (frame_bytes KPong 0 [])],
                          demo_stream [Chunk (frame_bytes KResponse 0 [1, 2])]]) = Ok [1, 2] v \<and>
       spawns v = [ASpawn [s2b ''daemon''] []] \<and> clock v \<le> 500000000"
proof -
  let ?w = "starting_world [demo_stream [Chunk (frame_bytes KPong 0 [])],
      demo_stream [Chunk (frame_bytes KResponse 0 [1, 2])]]"
  let ?a = "auto_start_new [s2b ''daemon'']"
  have a0: "answer echo_daemon 0 \<lparr>kind = KPing, flags = 0, payload = []\<rparr> = (KPong, [], Continue, 0)"
    by (simp add: answer_def)
  have a1: "answer echo_daemon 0 \<lparr>kind = KRequest, flags = 0, payload = [1, 2]\<rparr>
      = (KResponse, [1, 2], Continue, 1)"
    by (simp add: answer_def)
  have j0: "joined echo_daemon 0 KPing [] (demo_stream [Chunk (frame_bytes KPong 0 [])])
      (demo_stream [Chunk (frame_bytes KPing 0 [])])"
    by (rule demo_joined [OF a0]) simp_all
  have j1: "joined echo_daemon 0 KRequest [1, 2] (demo_stream [Chunk (frame_bytes KResponse 0 [1, 2])])
      (demo_stream [Chunk (frame_bytes KRequest 0 [1, 2])])"
    by (rule demo_joined [OF a1]) simp_all
  have c: "c_max_payload_len demo_client = DEFAULT_MAX_PAYLOAD_LEN" "demo_sock_path \<notin> {demo_pid_path}"
    by (simp_all add: demo_client_def with_auto_start_def with_pid_file_def client_new_def
        demo_sock_path_def demo_pid_path_def s2b_def)
  have up: "coming {demo_pid_path} (c_socket_path demo_client) 6 ?w" by (simp add: starting_coming)
  have nb: "names_nobody (\<lambda>q. q = 0 \<or> False) {demo_pid_path} demo_client ?w"
    by (simp add: names_nobody_def starting_world_def parse_pid_line)
  have ss: "fst (setsid quiet_libc u) \<noteq> - 1" for u by (simp add: model_libc_def)
  have B: "max (initial_backoff ?a) (max_backoff ?a) = 250000000" "ready_timeout ?a = 2000000000"
    "program ?a = [s2b ''daemon'']" "args ?a = []"
    by (simp_all add: auto_start_new_def from_millis_def from_secs_def)
  have w: "dials ?w = demo_stream [Chunk (frame_bytes KPong 0 [])]
      # demo_stream [Chunk (frame_bytes KResponse 0 [1, 2])] # []" "clock ?w = 0" "spawns ?w = []"
    by (simp_all add: starting_world_def spawns_def idle_world_def)
  have "on_request echo_daemon 0 [1, 2] = (Inr [1, 2], 1)" by simp
  from auto_start_end_to_end [OF up _ _ demo_client_sel(3) nb model_alive ss w(1) j0 j1 _ _ this] c B w
  show ?thesis by (auto simp: DEFAULT_MAX_PAYLOAD_LEN_def)
qed

end
