(* ===== verification/Graceful_Shutdown.thy ===== *)
theory Graceful_Shutdown imports End_To_End begin

text \<open>
  A shutdown that succeeds: the client sends the request, the daemon acknowledges it and then, at its
  own pace, removes its socket and its PID file, which the client waits for. The daemon's clean-up
  is a series of events of the world, spread over the client's calls in any way.
\<close>

section \<open>A daemon about to leave\<close>

text \<open>No call fails, files at the paths of \<open>P\<close> may only vanish, and time passes only while the client
  sleeps; when all events have happened, the paths are free.\<close>

definition fading :: "path set \<Rightarrow> event list \<times> io_error option \<Rightarrow> bool" where
  "fading P = (\<lambda>(evs, fault).
     fault = None \<and>
     (\<forall>e \<in> set evs. (avoids P e \<or> (\<exists>p. e = DelNode p)) \<and> (\<forall>d. e \<noteq> Elapse d)))"

definition leaving :: "path set \<Rightarrow> world \<Rightarrow> bool" where
  "leaving P w \<longleftrightarrow>
     (\<forall>x \<in> set (sched w). fading P x) \<and>
     (\<forall>p \<in> P. fs (fold apply_event (concat (map fst (sched w))) w) p = None)"

text \<open>What may have changed in the meantime.\<close>

definition faded :: "path set \<Rightarrow> world \<Rightarrow> world \<Rightarrow> bool" where
  "faded P w u \<longleftrightarrow>
     (\<forall>p \<in> P. fs u p = fs w p \<or> fs u p = None) \<and> clock u = clock w \<and> served u = served w \<and>
     trace u = trace w \<and> dials u = dials w"

lemma faded_trans: "faded P u v \<Longrightarrow> faded P v w \<Longrightarrow> faded P u w"
  by (simp add: faded_def) metis

lemma faded_refl [simp]: "faded P w w"
  by (simp add: faded_def)

lemma fold_events_sched:
  "fs (fold apply_event evs (w\<lparr>sched := x\<rparr>)) = fs (fold apply_event evs w)"
proof (induction evs arbitrary: w)
  case (Cons e evs)
  have "apply_event e (w\<lparr>sched := x\<rparr>) = (apply_event e w)\<lparr>sched := x\<rparr>" by (cases e) simp_all
  with Cons show ?case by simp
qed simp

lemma fold_events_dials:
  "fs (fold apply_event evs (w\<lparr>dials := x\<rparr>)) = fs (fold apply_event evs w)"
proof (induction evs arbitrary: w)
  case (Cons e evs)
  have "apply_event e (w\<lparr>dials := x\<rparr>) = (apply_event e w)\<lparr>dials := x\<rparr>" by (cases e) simp_all
  with Cons show ?case by simp
qed simp

lemma fold_fading:
  assumes "\<forall>e \<in> set evs. (avoids P e \<or> (\<exists>p. e = DelNode p)) \<and> (\<forall>d. e \<noteq> Elapse d)" "p \<in> P"
  shows "fs (fold apply_event evs w) p \<in> {fs w p, None} \<and> clock (fold apply_event evs w) = clock w"
  using assms(1)
proof (induction evs arbitrary: w)
  case (Cons e evs)
  have "fs (apply_event e w) p \<in> {fs w p, None} \<and> clock (apply_event e w) = clock w"
    using Cons.prems assms(2) by (cases e) auto
  moreover have "fs (fold apply_event evs (apply_event e w)) p \<in> {fs (apply_event e w) p, None} \<and>
      clock (fold apply_event evs (apply_event e w)) = clock (apply_event e w)"
    using Cons.prems by (intro Cons.IH) simp
  ultimately show ?case by auto
qed simp

lemma fading_faded:
  assumes "fading P (evs, fault)" "p0 \<in> P"
  shows "faded P w (fold apply_event evs (w\<lparr>sched := rest\<rparr>))"
proof -
  have e: "\<forall>e \<in> set evs. (avoids P e \<or> (\<exists>p. e = DelNode p)) \<and> (\<forall>d. e \<noteq> Elapse d)"
    using assms(1) by (simp add: fading_def)
  have "fs (fold apply_event evs (w\<lparr>sched := rest\<rparr>)) p \<in> {fs w p, None}" if "p \<in> P" for p
    using fold_fading [OF e that, of "w\<lparr>sched := rest\<rparr>"] by simp
  moreover have "clock (fold apply_event evs (w\<lparr>sched := rest\<rparr>)) = clock w"
    using fold_fading [OF e assms(2), of "w\<lparr>sched := rest\<rparr>"] by simp
  ultimately show ?thesis by (auto simp: faded_def)
qed

lemma enter_leaving:
  assumes "leaving P w" "p0 \<in> P"
  obtains u where "enter w = (None, u)" "leaving P u" "faded P w u" "length (sched u) = length (sched w) - 1"
proof (cases "sched w")
  case Nil
  with assms(1) that [of w] show ?thesis by (simp add: enter_idle)
next
  case (Cons x rest)
  obtain evs fault where x: "x = (evs, fault)" by fastforce
  let ?u = "fold apply_event evs (w\<lparr>sched := rest\<rparr>)"
  have f: "fading P (evs, fault)" using assms Cons x by (simp add: leaving_def)
  then have "enter w = (None, ?u)" using Cons x by (simp add: enter_def fading_def)
  moreover have "leaving P ?u"
    using assms(1) Cons x fold_events_sched [of "evs @ concat (map fst rest)" rest w]
    by (simp add: leaving_def)
  ultimately show ?thesis using that fading_faded [OF f assms(2)] Cons by simp
qed

section \<open>Waiting until it is gone\<close>

text \<open>The paths the client watches: its socket, and its PID file if it has one, which is readable.\<close>

definition watched :: "client \<Rightarrow> path set" where
  "watched c = insert (c_socket_path c) (set_option (c_pid_file c))"

definition watchable :: "client \<Rightarrow> world \<Rightarrow> bool" where
  "watchable c w \<longleftrightarrow>
     (fs w (c_socket_path c) = None \<or> (\<exists>i b. fs w (c_socket_path c) = Some (Sock i b))) \<and>
     (\<forall>p \<in> set_option (c_pid_file c). fs w p = None \<or> (\<exists>i b. fs w p = Some (File i b) \<and> utf8_valid b))"

lemma watchable_faded: "faded (watched c) w u \<Longrightarrow> watchable c w \<Longrightarrow> watchable c u"
  by (fastforce simp: watchable_def faded_def watched_def)

lemma leaving_gone: "leaving P w \<Longrightarrow> sched w = [] \<Longrightarrow> p \<in> P \<Longrightarrow> fs w p = None"
  by (simp add: leaving_def)

lemma socket_watched [simp]: "c_socket_path c \<in> watched c"
  by (simp add: watched_def)

lemma pid_file_leaving:
  assumes "leaving (watched c) w" "watchable c w"
  obtains u live where "pid_file_points_to_live_process c L w = Ok live u" "leaving (watched c) u"
    "faded (watched c) w u" "length (sched u) \<le> length (sched w)" "sched w = [] \<Longrightarrow> \<not> live"
proof (cases "c_pid_file c")
  case None
  with assms(1) that [of False w] show ?thesis by (simp add: pid_file_points_to_live_process_def)
next
  case (Some p)
  have p: "p \<in> watched c" using Some by (simp add: watched_def)
  obtain u where u: "enter w = (None, u)" "leaving (watched c) u" "faded (watched c) w u"
    "length (sched u) = length (sched w) - 1"
    by (rule enter_leaving [OF assms(1) p])
  have wu: "watchable c u" by (rule watchable_faded [OF u(3) assms(2)])
  show ?thesis
  proof (cases "fs u p")
    case None
    with u Some show ?thesis
      by (intro that [of False u])
        (simp_all add: pid_file_points_to_live_process_def read_pid_def read_to_string_def
          syscall_def lookup_missing)
  next
    case nd: (Some nd)
    then obtain i b where b: "fs u p = Some (File i b)" "utf8_valid b"
      using wu Some by (auto simp: watchable_def)
    have busy: "sched w \<noteq> []"
    proof
      assume "sched w = []"
      then have "sched u = []" using u(4) by simp
      from leaving_gone [OF u(2) this p] nd show False by simp
    qed
    have r: "read_pid p w = Ok (parse_u32 (trim b)) u"
      using u(1) b by (simp add: read_pid_def read_to_string_def syscall_def lookup_plain split: option.split)
    obtain x where x: "enter u = (None, x)" "leaving (watched c) x" "faded (watched c) u x"
      "length (sched x) = length (sched u) - 1"
      by (rule enter_leaving [OF u(2) p])
    show ?thesis
    proof (cases "parse_u32 (trim b)")
      case None
      with r u Some busy show ?thesis
        by (intro that [of False u]) (simp_all add: pid_file_points_to_live_process_def)
    next
      case (Some q)
      with r u x busy \<open>c_pid_file c = Some p\<close> show ?thesis
        by (intro that [of "pid_alive L q x" x])
          (auto simp: pid_file_points_to_live_process_def is_process_alive_def intro: faded_trans)
    qed
  qed
qed

lemma shutdown_complete_leaving:
  assumes "leaving (watched c) w" "watchable c w"
  obtains u gone where "shutdown_complete c L w = Ok gone u" "leaving (watched c) u"
    "faded (watched c) w u" "length (sched u) \<le> length (sched w) - 1" "sched w = [] \<Longrightarrow> gone"
    "gone \<Longrightarrow> fs u (c_socket_path c) = None"
proof -
  let ?sp = "c_socket_path c"
  obtain u where u: "enter w = (None, u)" "leaving (watched c) u" "faded (watched c) w u"
    "length (sched u) = length (sched w) - 1"
    by (rule enter_leaving [OF assms(1) socket_watched])
  have wu: "watchable c u" by (rule watchable_faded [OF u(3) assms(2)])
  show ?thesis
  proof (cases "fs u ?sp")
    case None
    obtain v live where v: "pid_file_points_to_live_process c L u = Ok live v" "leaving (watched c) v"
      "faded (watched c) u v" "length (sched v) \<le> length (sched u)" "sched u = [] \<longrightarrow> \<not> live"
      by (rule pid_file_leaving [OF u(2) wu, where L = L]) blast
    have "shutdown_complete c L w = Ok (\<not> live) v"
      using u(1) None v(1) by (simp add: shutdown_complete_def metadata_def syscall_def lookup_missing)
    moreover have "fs v ?sp = None" using v(3) None unfolding faded_def by (metis socket_watched)
    ultimately show ?thesis
      using u v faded_trans [OF u(3) v(3)] by (intro that [of "\<not> live" v]) simp_all
  next
    case (Some nd)
    then obtain i b where "fs u ?sp = Some (Sock i b)" using wu by (auto simp: watchable_def)
    then have "shutdown_complete c L w = Ok False u"
      using u(1) by (simp add: shutdown_complete_def metadata_def syscall_def lookup_plain)
    moreover have "sched w \<noteq> []"
      using leaving_gone [OF u(2) _ socket_watched] u(4) Some by auto
    ultimately show ?thesis using u by (intro that [of False u]) simp_all
  qed
qed

lemma fold_events_clock:
  "fs (fold apply_event evs (w\<lparr>clock := x\<rparr>)) = fs (fold apply_event evs w)"
proof (induction evs arbitrary: w x)
  case (Cons e evs)
  have "apply_event e (w\<lparr>clock := x\<rparr>)
      = (apply_event e w)\<lparr>clock := (case e of Elapse d \<Rightarrow> x + d | _ \<Rightarrow> x)\<rparr>"
    by (cases e) simp_all
  with Cons show ?case by simp
qed simp

lemma leaving_upd [simp]:
  "leaving P (w\<lparr>clock := x\<rparr>) = leaving P w"
  by (simp add: leaving_def fold_events_clock)

lemma shutdown_loop_leaving:
  "leaving (watched c) w \<Longrightarrow> watchable c w \<Longrightarrow> length (sched w) \<le> n \<Longrightarrow>
   clock w + ((n + 2) div 3) * from_millis 20 \<le> deadline \<Longrightarrow>
   \<exists>v. shutdown_loop c L deadline w = Some (Ok () v) \<and> fs v (c_socket_path c) = None \<and>
       clock v \<le> clock w + ((n + 2) div 3) * from_millis 20 \<and> served v = served w \<and> trace v = trace w"
proof (induction n arbitrary: w rule: less_induct)
  case (less n)
  let ?P = "watched c" and ?ms = "from_millis 20"
  obtain u gone where u: "shutdown_complete c L w = Ok gone u" "leaving ?P u" "faded ?P w u"
    "length (sched u) \<le> length (sched w) - 1" "sched w = [] \<longrightarrow> gone"
    "gone \<longrightarrow> fs u (c_socket_path c) = None"
    by (rule shutdown_complete_leaving [OF less.prems(1,2), where L = L]) blast
  show ?case
  proof (cases gone)
    case True
    with u show ?thesis by (subst shutdown_loop.simps) (auto simp: faded_def)
  next
    case False
    then have pos: "0 < n" using u(5) less.prems(3) by (cases "sched w") auto
    obtain x where x: "enter u = (None, x)" "leaving ?P x" "faded ?P u x"
      "length (sched x) = length (sched u) - 1"
      by (rule enter_leaving [OF u(2) socket_watched])
    obtain y where y: "enter x = (None, y)" "leaving ?P y" "faded ?P x y"
      "length (sched y) = length (sched x) - 1"
      by (rule enter_leaving [OF x(2) socket_watched])
    define z where "z = y\<lparr>clock := clock y + ?ms\<rparr>"
    have fd: "faded ?P w y" using u(3) x(3) y(3) faded_trans by blast
    have step: "(n - 3 + 2) div 3 + 1 \<le> (n + 2) div 3" using pos by presburger
    have "((n - 3 + 2) div 3 + 1) * ?ms \<le> ((n + 2) div 3) * ?ms"
      by (rule mult_le_mono1 [OF step])
    then have time: "?ms + ((n - 3 + 2) div 3) * ?ms \<le> ((n + 2) div 3) * ?ms" by simp
    have "0 < ?ms" by (simp add: from_millis_def)
    then have "clock x < deadline"
      using time less.prems(4) u(3) x(3) by (simp add: faded_def)
    then have loop: "shutdown_loop c L deadline w = shutdown_loop c L deadline z"
      using u(1) x(1) y(1) False by (subst shutdown_loop.simps) (simp add: sleep_def z_def)
    have "leaving ?P z"
      using y(2) by (simp add: z_def)
    moreover have "watchable c z"
      using watchable_faded [OF fd less.prems(2)] by (simp add: watchable_def z_def)
    moreover have "length (sched z) \<le> n - 3" "n - 3 < n"
      using u(4) x(4) y(4) less.prems(3) pos by (simp_all add: z_def)
    moreover have "clock z + ((n - 3 + 2) div 3) * ?ms \<le> deadline"
      using time less.prems(4) fd by (simp add: z_def faded_def)
    ultimately obtain v where "shutdown_loop c L deadline z = Some (Ok () v)"
      "fs v (c_socket_path c) = None" "clock v \<le> clock z + ((n - 3 + 2) div 3) * ?ms"
      "served v = served z" "trace v = trace z"
      using less.IH [of "n - 3" z] by blast
    with loop time fd show ?thesis by (auto simp: z_def faded_def)
  qed
qed

lemma shutdown_round:
  assumes "sched w = ([], None) # s" "fs w (c_socket_path c) = Some (Sock i True)" "dials w = cs # rest"
    and "leaving (watched c) w" "watchable c w"
    and "joined d st KShutdown [] cs ds"
    and "((length s + 2) div 3) * from_millis 20 \<le> c_shutdown_timeout c"
    and "clock w + c_shutdown_timeout c < 2 ^ 63 * 1000000000"
  shows "(\<exists>ds1. process_connection d ds st = Ok StopDaemon (st, ds1)) \<and>
    (\<exists>v s1. shutdown c L w = Ok True v \<and> fs v (c_socket_path c) = None \<and>
       served v = served w @ [s1] \<and> outbox s1 = unread ds \<and> spawns v = spawns w \<and>
       clock v \<le> clock w + ((length s + 2) div 3) * from_millis 20)"
proof -
  let ?sp = "c_socket_path c" and ?B = "((length s + 2) div 3) * from_millis 20"
  define u where "u = w\<lparr>sched := s, dials := rest\<rparr>"
  have con: "connect ?sp w = Ok cs u"
    using assms(1-3) by (simp add: connect_def unix_connect_def syscall_def enter_def lookup_plain u_def)
  have a: "answer d st \<lparr>kind = KShutdown, flags = 0, payload = []\<rparr> = (KShutdownAck, [], StopDaemon, st)"
    by (simp add: answer_def)
  from exchange [OF assms(6) _ _ a, of "c_max_payload_len c"] obtain ds1 cs1 cs2 where
    x: "process_connection d ds st = Ok StopDaemon (st, ds1)" "write_frame KShutdown [] cs = Ok () cs1"
    "read_frame (c_max_payload_len c) cs1 = Ok \<lparr>kind = KShutdownAck, flags = 0, payload = []\<rparr> cs2"
    "outbox cs2 = unread ds"
    by auto
  have lu: "leaving (watched c) u"
    using assms(1,4) by (simp add: leaving_def u_def fold_events_dials fold_events_sched)
  have wu: "watchable c u" using assms(5) by (simp add: watchable_def u_def)
  obtain y where y: "enter u = (None, y)" "leaving (watched c) y" "faded (watched c) u y"
    "length (sched y) = length (sched u) - 1"
    by (rule enter_leaving [OF lu socket_watched])
  have cl: "clock y = clock w" using y(3) by (simp add: faded_def u_def)
  have n: "length (sched y) \<le> length s" using y(4) by (simp add: u_def)
  from shutdown_loop_leaving [OF y(2) watchable_faded [OF y(3) wu] n, of "clock w + c_shutdown_timeout c" L]
    assms(7) cl
  obtain v where v: "shutdown_loop c L (clock w + c_shutdown_timeout c) y = Some (Ok () v)"
    "fs v ?sp = None" "clock v \<le> clock w + ?B" "served v = served y" "trace v = trace y"
    by auto
  have "wait_for_shutdown c L u = Ok () v"
    using v(1) y(1) cl assms(8) by (simp add: wait_for_shutdown_def now_def instant_add_def)
  then have "shutdown c L w = Ok True (close_stream cs2 v)"
    using con x(2,3) by (simp add: shutdown_def)
  with x(1,4) v y(3) show ?thesis
    by (intro conjI exI [of _ "close_stream cs2 v"] exI [of _ cs2] exI [of _ ds1])
      (simp_all add: close_stream_def faded_def u_def spawns_def)
qed

text \<open>C12: A graceful shutdown works end to end: \<^verbatim>\<open>shutdown\<close> on a client that reaches the daemon sends one
  shutdown frame, on which the daemon acknowledges and its loop is told to stop; the client then
  waits while the daemon removes its files, in whatever order and spread over however many calls,
  and answers true once the socket is gone, provided the clean-up fits the shutdown timeout.\<close>

theorem shutdown_end_to_end:
  assumes "sched w = ([], None) # s" "fs w (c_socket_path c) = Some (Sock i True)" "dials w = cs # rest"
    and "leaving (watched c) w" "watchable c w"
    and "joined d st KShutdown [] cs ds"
    and "((length s + 2) div 3) * from_millis 20 \<le> c_shutdown_timeout c"
    and "clock w + c_shutdown_timeout c < 2 ^ 63 * 1000000000"
  shows "(\<exists>ds1. process_connection d ds st = Ok StopDaemon (st, ds1)) \<and>
    (\<exists>v s1. shutdown c L w = Ok True v \<and> fs v (c_socket_path c) = None \<and>
       served v = served w @ [s1] \<and> outbox s1 = unread ds \<and> spawns v = spawns w \<and>
       clock v \<le> clock w + ((length s + 2) div 3) * from_millis 20)"
  using assms by (rule shutdown_round)

section \<open>Witness\<close>

text \<open>The daemon removes its socket at the client's third call and its PID file at the fifth.\<close>

definition stopping_world :: "stream list \<Rightarrow> world" where
  "stopping_world ss =
     (base_world [[s2b ''tmp''] \<mapsto> Dir, demo_sock_path \<mapsto> Sock 5 True, demo_pid_path \<mapsto> File 3 (pid_line 9)])
       \<lparr>dials := ss,
        sched := [([], None), ([], None), ([DelNode demo_sock_path], None), ([], None),
                  ([DelNode demo_pid_path, ProcDown 9], None)]\<rparr>"

theorem shutdown_end_to_end_witness:
  "\<exists>v. shutdown demo_client quiet_libc
         (stopping_world [demo_stream [Chunk (frame_bytes KShutdownAck 0 [])]]) = Ok True v \<and>
       fs v demo_sock_path = None \<and> clock v \<le> 40000000"
proof -
  let ?w = "stopping_world [demo_stream [Chunk (frame_bytes KShutdownAck 0 [])]]"
  have a: "answer echo_daemon 0 \<lparr>kind = KShutdown, flags = 0, payload = []\<rparr> = (KShutdownAck, [], StopDaemon, 0)"
    by (simp add: answer_def)
  have j: "joined echo_daemon 0 KShutdown [] (demo_stream [Chunk (frame_bytes KShutdownAck 0 [])])
      (demo_stream [Chunk (frame_bytes KShutdown 0 [])])"
    by (rule demo_joined [OF a]) simp_all
  have ne: "demo_sock_path \<noteq> demo_pid_path" "demo_sock_path \<noteq> [s2b ''tmp'']" "demo_pid_path \<noteq> [s2b ''tmp'']"
    by (simp_all add: demo_sock_path_def demo_pid_path_def s2b_def)
  have P: "watched demo_client = {demo_sock_path, demo_pid_path}" by (simp add: watched_def)
  have le: "leaving (watched demo_client) ?w"
    by (auto simp: P leaving_def fading_def stopping_world_def ne)
  have wa: "watchable demo_client ?w"
    using ne by (simp add: watchable_def stopping_world_def) blast
  have t: "c_shutdown_timeout demo_client = 2000000000"
    by (simp add: demo_client_def with_auto_start_def with_pid_file_def client_new_def from_secs_def)
  have w: "sched ?w = ([], None) # [([], None), ([DelNode demo_sock_path], None), ([], None),
      ([DelNode demo_pid_path, ProcDown 9], None)]"
    "fs ?w (c_socket_path demo_client) = Some (Sock 5 True)"
    "dials ?w = demo_stream [Chunk (frame_bytes KShutdownAck 0 [])] # []" "clock ?w = 0"
    using ne by (simp_all add: stopping_world_def)
  from shutdown_end_to_end [OF w(1-3) le wa j, where L = quiet_libc] t w(4)
  show ?thesis by (auto simp: from_millis_def)
qed

end
