(* ===== verification/Ffi.thy ===== *)
theory Ffi imports Client begin

text \<open>
  \<^verbatim>\<open>src/ffi.rs\<close>: the C interface of the client, with its memory made explicit. A pointer is an
  address or null. The memory holds the objects the interface deals in, each under its own address:
  configurations, NUL-terminated strings (without the NUL), byte buffers, arrays of string
  pointers, and the caller's cells for results. What the library allocates goes to a fresh address.

  Dereferencing a pointer to no such object is \<^verbatim>\<open>Undefined\<close>, the only error of this layer; a
  panic that reaches the C boundary aborts the process and is a \<open>Panic\<close>.
\<close>

section \<open>Memory\<close>

type_synonym addr = nat
type_synonym pointer = "addr option"

record sockd_client_config =
  f_socket_path :: rstring
  f_pid_file :: "rstring option"
  f_auto_start_program :: "rstring option"
  f_auto_start_args :: "rstring list"
  f_max_payload_len :: nat
  f_shutdown_timeout_ms :: nat

record c_state =
  c_world :: world
  configs :: "addr \<Rightarrow> sockd_client_config option"
  strings :: "addr \<Rightarrow> bytes option"
  arrays :: "addr \<Rightarrow> pointer list option"
  buffers :: "addr \<Rightarrow> bytes option"
  pointer_cells :: "addr \<Rightarrow> pointer option"
  size_cells :: "addr \<Rightarrow> nat option"
  bool_cells :: "addr \<Rightarrow> bool option"
  next_addr :: addr

datatype ffi_fault = Undefined

type_synonym 'a call = "(ffi_fault, 'a, c_state) run"

definition deref :: "addr \<Rightarrow> (addr \<Rightarrow> 'a option) \<Rightarrow> c_state \<Rightarrow> 'a call" where
  "deref a m st = (case m a of None \<Rightarrow> Err Undefined st | Some x \<Rightarrow> Ok x st)"

definition set_pointer :: "addr \<Rightarrow> pointer \<Rightarrow> c_state \<Rightarrow> unit call" where
  "set_pointer a p st =
     (if pointer_cells st a = None then Err Undefined st
      else Ok () (st\<lparr>pointer_cells := (pointer_cells st)(a \<mapsto> p)\<rparr>))"

definition set_size :: "addr \<Rightarrow> nat \<Rightarrow> c_state \<Rightarrow> unit call" where
  "set_size a n st =
     (if size_cells st a = None then Err Undefined st
      else Ok () (st\<lparr>size_cells := (size_cells st)(a \<mapsto> n)\<rparr>))"

definition set_bool :: "addr \<Rightarrow> bool \<Rightarrow> c_state \<Rightarrow> unit call" where
  "set_bool a b st =
     (if bool_cells st a = None then Err Undefined st
      else Ok () (st\<lparr>bool_cells := (bool_cells st)(a \<mapsto> b)\<rparr>))"

text \<open>A slice of the first \<open>n\<close> elements of an array or a buffer, which must have as many; and the two
  ways an allocation comes back to the library, a byte vector of exactly the given length (its
  capacity is its length, as the vectors the library hands out) and a string.\<close>

definition slice_from_raw_parts ::
  "addr \<Rightarrow> (addr \<Rightarrow> 'a list option) \<Rightarrow> nat \<Rightarrow> c_state \<Rightarrow> 'a list call" where
  "slice_from_raw_parts a m n st =
     and_then (deref a m st) (\<lambda>xs st. if length xs < n then Err Undefined st else Ok (take n xs) st)"

definition vec_from_raw_parts :: "addr \<Rightarrow> nat \<Rightarrow> c_state \<Rightarrow> bytes call" where
  "vec_from_raw_parts a n st =
     and_then (deref a (buffers st) st) (\<lambda>b st.
     if length b \<noteq> n then Err Undefined st
     else Ok b (st\<lparr>buffers := (buffers st)(a := None)\<rparr>))"

definition c_string_from_raw :: "addr \<Rightarrow> c_state \<Rightarrow> bytes call" where
  "c_string_from_raw a st =
     and_then (deref a (strings st) st) (\<lambda>s st. Ok s (st\<lparr>strings := (strings st)(a := None)\<rparr>))"

definition new_string :: "bytes \<Rightarrow> c_state \<Rightarrow> addr call" where
  "new_string s st =
     Ok (next_addr st)
       (st\<lparr>strings := (strings st)(next_addr st \<mapsto> s), next_addr := Suc (next_addr st)\<rparr>)"

definition new_buffer :: "bytes \<Rightarrow> c_state \<Rightarrow> addr call" where
  "new_buffer b st =
     Ok (next_addr st)
       (st\<lparr>buffers := (buffers st)(next_addr st \<mapsto> b), next_addr := Suc (next_addr st)\<rparr>)"

definition new_config :: "sockd_client_config \<Rightarrow> c_state \<Rightarrow> addr call" where
  "new_config c st =
     Ok (next_addr st)
       (st\<lparr>configs := (configs st)(next_addr st \<mapsto> c), next_addr := Suc (next_addr st)\<rparr>)"

definition set_config :: "addr \<Rightarrow> sockd_client_config \<Rightarrow> c_state \<Rightarrow> c_state" where
  "set_config a c st = st\<lparr>configs := (configs st)(a \<mapsto> c)\<rparr>"

section \<open>Codes and errors\<close>

definition SOCKD_OK :: int where "SOCKD_OK = 0"
definition SOCKD_ERR_NULL :: int where "SOCKD_ERR_NULL = 1"
definition SOCKD_ERR_UTF8 :: int where "SOCKD_ERR_UTF8 = 2"
definition SOCKD_ERR_OPERATION :: int where "SOCKD_ERR_OPERATION = 3"

definition write_error :: "pointer \<Rightarrow> rstring \<Rightarrow> int \<Rightarrow> c_state \<Rightarrow> int call" where
  "write_error error_out message code st =
     (case error_out of
        None \<Rightarrow> Ok code st
      | Some cell \<Rightarrow>
          and_then (new_string (filter (\<lambda>b. b \<noteq> 0) message) st) (\<lambda>s st.
          and_then (set_pointer cell (Some s) st) (\<lambda>_ st.
          Ok code st)))"

section \<open>Arguments\<close>

definition c_string :: "pointer \<Rightarrow> c_state \<Rightarrow> (rstring + rstring) call" where
  "c_string input st =
     (case input of
        None \<Rightarrow> Ok (Inl (s2b ''pointer must not be null'')) st
      | Some a \<Rightarrow>
          and_then (deref a (strings st) st) (\<lambda>s st.
          Ok (if utf8_valid s then Inr s else Inl (s2b ''value must be valid UTF-8'')) st))"

definition c_string_result :: "pointer \<Rightarrow> pointer \<Rightarrow> c_state \<Rightarrow> rstring option call" where
  "c_string_result input error_out st =
     and_then (c_string input st) (\<lambda>r st.
     case r of
       Inr value \<Rightarrow> Ok (Some value) st
     | Inl message \<Rightarrow>
         and_then (write_error error_out message SOCKD_ERR_UTF8 st) (\<lambda>_ st. Ok None st))"

fun c_string_each :: "pointer list \<Rightarrow> pointer \<Rightarrow> c_state \<Rightarrow> rstring list option call" where
  "c_string_each [] error_out st = Ok (Some []) st"
| "c_string_each (arg # argv) error_out st =
     and_then (c_string_result arg error_out st) (\<lambda>value st.
     case value of
       None \<Rightarrow> Ok None st
     | Some s \<Rightarrow>
         and_then (c_string_each argv error_out st) (\<lambda>out st. Ok (map_option ((#) s) out) st))"

definition c_string_vec :: "nat \<Rightarrow> pointer \<Rightarrow> pointer \<Rightarrow> c_state \<Rightarrow> rstring list option call" where
  "c_string_vec argc argv error_out st =
     (if argc = 0 then Ok (Some []) st
      else case argv of
        None \<Rightarrow>
          and_then
            (write_error error_out (s2b ''argv pointer must not be null when argc > 0'')
              SOCKD_ERR_NULL st)
            (\<lambda>_ st. Ok None st)
      | Some a \<Rightarrow>
          and_then (slice_from_raw_parts a (arrays st) argc st) (\<lambda>ps st.
          c_string_each ps error_out st))"

definition config_ref ::
  "pointer \<Rightarrow> pointer \<Rightarrow> c_state \<Rightarrow> (addr \<times> sockd_client_config) option call" where
  "config_ref cfg error_out st =
     (case cfg of
        None \<Rightarrow>
          and_then (write_error error_out (s2b ''config pointer must not be null'') SOCKD_ERR_NULL st)
            (\<lambda>_ st. Ok None st)
      | Some a \<Rightarrow> and_then (deref a (configs st) st) (\<lambda>c st. Ok (Some (a, c)) st))"

definition config_mut ::
  "pointer \<Rightarrow> pointer \<Rightarrow> c_state \<Rightarrow> (addr \<times> sockd_client_config) option call" where
  "config_mut cfg error_out st =
     (case cfg of
        None \<Rightarrow>
          and_then (write_error error_out (s2b ''config pointer must not be null'') SOCKD_ERR_NULL st)
            (\<lambda>_ st. Ok None st)
      | Some a \<Rightarrow> and_then (deref a (configs st) st) (\<lambda>c st. Ok (Some (a, c)) st))"

section \<open>The client of a configuration\<close>

text \<open>A path given as a string: its components, empty ones and \<^verbatim>\<open>.\<close> left out. A relative path is
  taken from the root, as by a process whose working directory is the root.\<close>

fun split_slash :: "rstring \<Rightarrow> rstring \<Rightarrow> rstring list" where
  "split_slash acc [] = [acc]"
| "split_slash acc (b # bs) =
     (if b = 47 then acc # split_slash [] bs else split_slash (acc @ [b]) bs)"

definition path_from :: "rstring \<Rightarrow> path" where
  "path_from s = filter (\<lambda>c. c \<noteq> [] \<and> c \<noteq> [46]) (split_slash [] s)"

definition build_client :: "sockd_client_config \<Rightarrow> client" where
  "build_client cfg =
     (let c = with_shutdown_timeout
                (with_max_payload_len (client_new (path_from (f_socket_path cfg)))
                  (f_max_payload_len cfg))
                (from_millis (f_shutdown_timeout_ms cfg));
          c = (case f_pid_file cfg of
                 None \<Rightarrow> c
               | Some p \<Rightarrow> with_pid_file c (path_from p)) in
      case f_auto_start_program cfg of
        None \<Rightarrow> c
      | Some prog \<Rightarrow>
          with_auto_start_config c
            (with_args (auto_start_new (path_from prog)) (f_auto_start_args cfg)))"

section \<open>The exported functions\<close>

definition sockd_client_config_new :: "pointer \<Rightarrow> c_state \<Rightarrow> pointer call" where
  "sockd_client_config_new sp st =
     and_then (c_string sp st) (\<lambda>r st.
     case r of
       Inl _ \<Rightarrow> Ok None st
     | Inr value \<Rightarrow>
         and_then
           (new_config
             \<lparr>f_socket_path = value,
              f_pid_file = None,
              f_auto_start_program = None,
              f_auto_start_args = [],
              f_max_payload_len = DEFAULT_MAX_PAYLOAD_LEN,
              f_shutdown_timeout_ms = 2000\<rparr> st)
           (\<lambda>a st. Ok (Some a) st))"

definition sockd_client_config_free :: "pointer \<Rightarrow> c_state \<Rightarrow> unit call" where
  "sockd_client_config_free cfg st =
     (case cfg of
        None \<Rightarrow> Ok () st
      | Some a \<Rightarrow>
          and_then (deref a (configs st) st)
            (\<lambda>_ st. Ok () (st\<lparr>configs := (configs st)(a := None)\<rparr>)))"

definition sockd_client_config_set_pid_file ::
  "pointer \<Rightarrow> pointer \<Rightarrow> pointer \<Rightarrow> c_state \<Rightarrow> int call" where
  "sockd_client_config_set_pid_file cfg pid error_out st =
     and_then (config_mut cfg error_out st) (\<lambda>r st.
     case r of
       None \<Rightarrow> Ok SOCKD_ERR_NULL st
     | Some (a, c) \<Rightarrow>
         and_then (c_string_result pid error_out st) (\<lambda>value st.
         case value of
           None \<Rightarrow> Ok SOCKD_ERR_UTF8 st
         | Some s \<Rightarrow> Ok SOCKD_OK (set_config a (c\<lparr>f_pid_file := Some s\<rparr>) st)))"

definition sockd_client_config_set_auto_start ::
  "pointer \<Rightarrow> pointer \<Rightarrow> nat \<Rightarrow> pointer \<Rightarrow> pointer \<Rightarrow> c_state \<Rightarrow> int call" where
  "sockd_client_config_set_auto_start cfg prog argc argv error_out st =
     and_then (config_mut cfg error_out st) (\<lambda>r st.
     case r of
       None \<Rightarrow> Ok SOCKD_ERR_NULL st
     | Some (a, c) \<Rightarrow>
         and_then (c_string_result prog error_out st) (\<lambda>value st.
         case value of
           None \<Rightarrow> Ok SOCKD_ERR_UTF8 st
         | Some s \<Rightarrow>
             and_then (c_string_vec argc argv error_out st) (\<lambda>arguments st.
             case arguments of
               None \<Rightarrow> Ok SOCKD_ERR_UTF8 st
             | Some xs \<Rightarrow>
                 Ok SOCKD_OK
                   (set_config a
                     (c\<lparr>f_auto_start_program := Some s, f_auto_start_args := xs\<rparr>) st))))"

definition sockd_client_config_set_max_payload_len ::
  "pointer \<Rightarrow> nat \<Rightarrow> pointer \<Rightarrow> c_state \<Rightarrow> int call" where
  "sockd_client_config_set_max_payload_len cfg n error_out st =
     and_then (config_mut cfg error_out st) (\<lambda>r st.
     case r of
       None \<Rightarrow> Ok SOCKD_ERR_NULL st
     | Some (a, c) \<Rightarrow> Ok SOCKD_OK (set_config a (c\<lparr>f_max_payload_len := n\<rparr>) st))"

definition sockd_client_config_set_shutdown_timeout_ms ::
  "pointer \<Rightarrow> nat \<Rightarrow> pointer \<Rightarrow> c_state \<Rightarrow> int call" where
  "sockd_client_config_set_shutdown_timeout_ms cfg n error_out st =
     and_then (config_mut cfg error_out st) (\<lambda>r st.
     case r of
       None \<Rightarrow> Ok SOCKD_ERR_NULL st
     | Some (a, c) \<Rightarrow> Ok SOCKD_OK (set_config a (c\<lparr>f_shutdown_timeout_ms := n\<rparr>) st))"

text \<open>A client operation inside the C state: its error is reported, its panic aborts.\<close>

definition operate ::
  "(world \<Rightarrow> ('a, world) result) \<Rightarrow> pointer \<Rightarrow> ('a \<Rightarrow> c_state \<Rightarrow> int call) \<Rightarrow> c_state \<Rightarrow> int call" where
  "operate f error_out k st =
     (case f (c_world st) of
        Ok x w \<Rightarrow> k x (st\<lparr>c_world := w\<rparr>)
      | Err err w \<Rightarrow>
          write_error error_out (error_display err) SOCKD_ERR_OPERATION (st\<lparr>c_world := w\<rparr>)
      | Panic w \<Rightarrow> Panic (st\<lparr>c_world := w\<rparr>)
      | Hang \<Rightarrow> Hang)"

definition sockd_client_ping :: "libc \<Rightarrow> pointer \<Rightarrow> pointer \<Rightarrow> c_state \<Rightarrow> int call" where
  "sockd_client_ping L cfg error_out st =
     and_then (config_ref cfg error_out st) (\<lambda>r st.
     case r of
       None \<Rightarrow> Ok SOCKD_ERR_NULL st
     | Some (a, c) \<Rightarrow> operate (ping (build_client c) L) error_out (\<lambda>_ st. Ok SOCKD_OK st) st)"

definition request_bytes :: "pointer \<Rightarrow> nat \<Rightarrow> c_state \<Rightarrow> bytes option call" where
  "request_bytes request_ptr request_len st =
     (if request_len = 0 then Ok (Some []) st
      else case request_ptr of
        None \<Rightarrow> Ok None st
      | Some a \<Rightarrow>
          and_then (slice_from_raw_parts a (buffers st) request_len st) (\<lambda>pl st.
          Ok (Some pl) st))"

definition sockd_client_request ::
  "libc \<Rightarrow> pointer \<Rightarrow> pointer \<Rightarrow> nat \<Rightarrow> pointer \<Rightarrow> pointer \<Rightarrow> pointer \<Rightarrow> c_state \<Rightarrow> int call" where
  "sockd_client_request L cfg request_ptr request_len response_ptr_out response_len_out error_out st =
     and_then (config_ref cfg error_out st) (\<lambda>r st.
     case r of
       None \<Rightarrow> Ok SOCKD_ERR_NULL st
     | Some (a, c) \<Rightarrow>
         (case (response_ptr_out, response_len_out) of
            (Some ptr_out, Some len_out) \<Rightarrow>
              and_then (request_bytes request_ptr request_len st) (\<lambda>payload st.
              case payload of
                None \<Rightarrow>
                  write_error error_out
                    (s2b ''request pointer must not be null when request_len > 0'')
                    SOCKD_ERR_NULL st
              | Some pl \<Rightarrow>
                  operate (request (build_client c) L pl) error_out (\<lambda>response st.
                    and_then (new_buffer response st) (\<lambda>buf st.
                    and_then (set_pointer ptr_out (Some buf) st) (\<lambda>_ st.
                    and_then (set_size len_out (length response) st) (\<lambda>_ st.
                    Ok SOCKD_OK st)))) st)
          | _ \<Rightarrow>
              write_error error_out (s2b ''response output pointers must not be null'')
                SOCKD_ERR_NULL st))"

definition sockd_client_shutdown :: "libc \<Rightarrow> pointer \<Rightarrow> pointer \<Rightarrow> pointer \<Rightarrow> c_state \<Rightarrow> int call" where
  "sockd_client_shutdown L cfg stopped_out error_out st =
     and_then (config_ref cfg error_out st) (\<lambda>r st.
     case r of
       None \<Rightarrow> Ok SOCKD_ERR_NULL st
     | Some (a, c) \<Rightarrow>
         (case stopped_out of
            None \<Rightarrow>
              write_error error_out (s2b ''stopped_out pointer must not be null'') SOCKD_ERR_NULL st
          | Some cell \<Rightarrow>
              operate (shutdown (build_client c) L) error_out (\<lambda>stopped st.
                and_then (set_bool cell stopped st) (\<lambda>_ st. Ok SOCKD_OK st)) st))"

text \<open>Freeing needs the pointer and the very length the library handed out.\<close>

definition sockd_buffer_free :: "pointer \<Rightarrow> nat \<Rightarrow> c_state \<Rightarrow> unit call" where
  "sockd_buffer_free ptr len st =
     (case ptr of
        None \<Rightarrow> Ok () st
      | Some a \<Rightarrow> and_then (vec_from_raw_parts a len st) (\<lambda>_ st. Ok () st))"

definition sockd_string_free :: "pointer \<Rightarrow> c_state \<Rightarrow> unit call" where
  "sockd_string_free ptr st =
     (case ptr of
        None \<Rightarrow> Ok () st
      | Some a \<Rightarrow> and_then (c_string_from_raw a st) (\<lambda>_ st. Ok () st))"

end
