(* ===== verification/Programs.thy ===== *)
theory Programs imports End_To_End Ffi begin

text \<open>
  The programs around the library: \<^verbatim>\<open>src/bin/sockd_test_daemon.rs\<close>, \<^verbatim>\<open>examples/echo_daemon.rs\<close>
  and \<^verbatim>\<open>examples/echo_client.rs\<close>. Each \<^verbatim>\<open>main\<close> is a function of its arguments (without the
  program's own name), its environment and the world; its error is the text of the boxed error it
  returns. What a program prints is a list of lines, threaded through beside the world. Reading an
  argument that is not UTF-8 panics, as \<^verbatim>\<open>std::env::args\<close> does.
\<close>

section \<open>Parsing a u64\<close>

datatype int_error = EmptyInt | InvalidDigit | PosOverflow

fun int_error_display :: "int_error \<Rightarrow> rstring" where
  "int_error_display EmptyInt = s2b ''cannot parse integer from empty string''"
| "int_error_display InvalidDigit = s2b ''invalid digit found in string''"
| "int_error_display PosOverflow = s2b ''number too large to fit in target type''"

fun parse_u64_digits :: "nat \<Rightarrow> rstring \<Rightarrow> int_error + nat" where
  "parse_u64_digits acc [] = Inr acc"
| "parse_u64_digits acc (b # bs) =
     (case digit_val b of
        None \<Rightarrow> Inl InvalidDigit
      | Some d \<Rightarrow>
          if 10 * acc + d < 2 ^ 64 then parse_u64_digits (10 * acc + d) bs else Inl PosOverflow)"

definition parse_u64 :: "rstring \<Rightarrow> int_error + nat" where
  "parse_u64 s =
     (case s of
        [] \<Rightarrow> Inl EmptyInt
      | b # rest \<Rightarrow> parse_u64_digits 0 (if b = 43 \<and> rest \<noteq> [] then rest else s))"

lemma parse_u64_digits_append:
  "parse_u64_digits acc (xs @ ys) =
     (case parse_u64_digits acc xs of Inl e \<Rightarrow> Inl e | Inr a \<Rightarrow> parse_u64_digits a ys)"
  by (induction xs arbitrary: acc) (auto split: option.split)

lemma parse_u64_digits_show: "n < 2 ^ 64 \<Longrightarrow> parse_u64_digits 0 (show_nat n) = Inr n"
proof (induction n rule: show_nat.induct)
  case (1 n)
  show ?case
  proof (cases "n < 10")
    case True
    with digit_val_ascii [of n] show ?thesis by (subst show_nat.simps) simp
  next
    case False
    with 1 have "parse_u64_digits 0 (show_nat (n div 10)) = Inr (n div 10)" by simp
    with False 1(2) digit_val_ascii [of "n mod 10"] show ?thesis
      by (subst show_nat.simps) (simp add: parse_u64_digits_append)
  qed
qed

lemma parse_u64_show_nat: "n < 2 ^ 64 \<Longrightarrow> parse_u64 (show_nat n) = Inr n"
proof -
  assume n: "n < 2 ^ 64"
  obtain b rest where s: "show_nat n = b # rest" by (cases "show_nat n") auto
  then have "b \<noteq> 43" using show_nat_digits [of b n] by auto
  with s parse_u64_digits_show [OF n] show ?thesis by (simp add: parse_u64_def)
qed

section \<open>The test daemon\<close>

definition to_ascii_uppercase :: "u8 \<Rightarrow> u8" where
  "to_ascii_uppercase b = (if 97 \<le> unat b \<and> unat b \<le> 122 then b - 32 else b)"

definition uppercase_handler :: "unit \<Rightarrow> bytes \<Rightarrow> bytes callback_result \<times> unit" where
  "uppercase_handler s req = (Inr (map to_ascii_uppercase req), s)"

record test_options =
  t_socket :: "path option"
  t_pid :: "path option"
  t_idle_ms :: nat

text \<open>\<^verbatim>\<open>args.next()\<close>: the next argument, if there is one.\<close>

fun next_arg :: "rstring list \<Rightarrow> 'w \<Rightarrow> ('e, rstring option \<times> rstring list, 'w) run" where
  "next_arg [] w = Ok (None, []) w"
| "next_arg (a # rest) w = (if utf8_valid a then Ok (Some a, rest) w else Panic w)"

text \<open>The argument loop reads one argument and, for each of the three flags, the next one, when there
  is one, as its value; \<open>test_daemon_flag\<close> is the body of the loop.\<close>

definition test_daemon_flag ::
  "rstring \<Rightarrow> rstring list \<Rightarrow> test_options \<Rightarrow> 'w \<Rightarrow> (box_error, test_options \<times> rstring list, 'w) run"
  where
  "test_daemon_flag arg rest opts w =
     (if arg = s2b ''--socket'' then
        and_then (next_arg rest w) (\<lambda>(value, rest).
          Ok (opts\<lparr>t_socket := map_option path_from value\<rparr>, rest))
      else if arg = s2b ''--pid'' then
        and_then (next_arg rest w) (\<lambda>(value, rest).
          Ok (opts\<lparr>t_pid := map_option path_from value\<rparr>, rest))
      else if arg = s2b ''--idle-ms'' then
        and_then (next_arg rest w) (\<lambda>(value, rest) w.
          case value of
            None \<Rightarrow> Ok (opts, rest) w
          | Some v \<Rightarrow>
              and_then (map_err int_error_display (lift_result (parse_u64 v) w)) (\<lambda>ms.
                Ok (opts\<lparr>t_idle_ms := ms\<rparr>, rest)))
      else Err (s2b ''unknown argument: '' @ arg) w)"

lemma next_arg_shorter: "next_arg rest w = Ok (value, rest') v \<Longrightarrow> length rest' \<le> length rest"
  by (cases rest) (auto split: if_splits)

lemma next_arg_SomeD: "next_arg argv w = Ok (Some arg, rest) v \<Longrightarrow> argv = arg # rest \<and> v = w"
  by (cases argv) (auto split: if_splits)

lemma test_daemon_flag_shorter:
  "test_daemon_flag arg rest opts w = Ok (opts', rest') v \<Longrightarrow> length rest' \<le> length rest"
  by (auto simp: test_daemon_flag_def run_iffs dest: next_arg_shorter split: if_splits option.splits)

function test_daemon_args ::
  "rstring list \<Rightarrow> test_options \<Rightarrow> 'w \<Rightarrow> (box_error, test_options, 'w) run" where
  "test_daemon_args argv opts w =
     (case next_arg argv w of
        Ok (None, rest) w \<Rightarrow> Ok opts w
      | Ok (Some arg, rest) w \<Rightarrow>
          (case test_daemon_flag arg rest opts w of
             Ok (opts, rest) w \<Rightarrow> test_daemon_args rest opts w
           | Err e w \<Rightarrow> Err e w
           | Panic w \<Rightarrow> Panic w
           | Hang \<Rightarrow> Hang)
      | Err e w \<Rightarrow> Err e w
      | Panic w \<Rightarrow> Panic w
      | Hang \<Rightarrow> Hang)"
  by pat_completeness auto
termination
  by (relation "measure (\<lambda>(argv, opts, w). length argv)")
    (auto dest!: test_daemon_flag_shorter next_arg_SomeD)

declare test_daemon_args.simps [simp del]

definition test_daemon_main :: "rstring list \<Rightarrow> libc \<Rightarrow> world \<Rightarrow> (box_error, unit, world) run" where
  "test_daemon_main argv L w =
     and_then (test_daemon_args argv \<lparr>t_socket = None, t_pid = None, t_idle_ms = 1000\<rparr> w) (\<lambda>opts w.
     case t_socket opts of
       None \<Rightarrow> Err (s2b ''missing --socket'') w
     | Some sock \<Rightarrow>
         (let b = builder_on_request uppercase_handler
                    (builder_poll_interval (from_millis 20)
                      (builder_idle_timeout (from_millis (t_idle_ms opts))
                        (builder_socket sock builder)));
              b = (case t_pid opts of None \<Rightarrow> b | Some p \<Rightarrow> builder_pid_file p b) in
          and_then (map_err error_display (lift_result (build b) w)) (\<lambda>d w.
          map_err error_display (run d L w))))"

section \<open>The example programs\<close>

type_synonym environment = "rstring \<Rightarrow> rstring option"
type_synonym console = "rstring list"

text \<open>\<^verbatim>\<open>env::var\<close>: a variable that is unset or not UTF-8 is an error, which the programs ignore.\<close>

definition env_var :: "string \<Rightarrow> environment \<Rightarrow> rstring option" where
  "env_var name env =
     (case env (s2b name) of
        Some v \<Rightarrow> if utf8_valid v then Some v else None
      | None \<Rightarrow> None)"

definition print_line :: "rstring \<Rightarrow> console \<times> 'w \<Rightarrow> ('e, unit, console \<times> 'w) run" where
  "print_line line cw = (case cw of (lines, w) \<Rightarrow> Ok () (lines @ [line], w))"

definition path_var :: "string \<Rightarrow> string \<Rightarrow> environment \<Rightarrow> path" where
  "path_var name fallback env =
     (case env_var name env of Some v \<Rightarrow> path_from v | None \<Rightarrow> path_from (s2b fallback))"

definition idle_secs_var :: "environment \<Rightarrow> nat" where
  "idle_secs_var env =
     (case env_var ''SOCKD_IDLE_SECS'' env of
        Some v \<Rightarrow> (case parse_u64 v of Inr n \<Rightarrow> n | Inl _ \<Rightarrow> 300)
      | None \<Rightarrow> 300)"

definition echo_daemon_main ::
  "environment \<Rightarrow> libc \<Rightarrow> console \<times> world \<Rightarrow> (box_error, unit, console \<times> world) run" where
  "echo_daemon_main env L cw =
     (let sock = path_var ''SOCKD_SOCKET'' ''/tmp/sockd-example.sock'' env;
          pid = path_var ''SOCKD_PID'' ''/tmp/sockd-example.pid'' env;
          idle_secs = idle_secs_var env in
      and_then
        (print_line
          (s2b ''sockd echo daemon listening on '' @ display_path sock @ s2b '' (pid file: ''
           @ display_path pid @ s2b '')'') cw) (\<lambda>_ (lines, w).
      and_then
        (map_err error_display
          (lift_result
            (build
              (builder_on_request uppercase_handler
                (builder_poll_interval (from_millis 50)
                  (builder_idle_timeout (from_secs idle_secs)
                    (builder_pid_file pid
                      (builder_socket sock builder))))))
            (lines, w))) (\<lambda>d (lines, w).
      map_state (Pair lines) (map_err error_display (run d L w)))))"

record client_options =
  o_shutdown :: bool
  o_auto_start :: "rstring option"
  o_payload :: "rstring list"

function echo_client_args ::
  "rstring list \<Rightarrow> client_options \<Rightarrow> 'w \<Rightarrow> (box_error, client_options, 'w) run" where
  "echo_client_args argv opts w =
     (case next_arg argv w of
        Ok (None, rest) w \<Rightarrow> Ok opts w
      | Ok (Some arg, rest) w \<Rightarrow>
          if arg = s2b ''--shutdown'' then echo_client_args rest (opts\<lparr>o_shutdown := True\<rparr>) w
          else if arg = s2b ''--auto-start'' then
            (case next_arg rest w of
               Ok (value, rest) w \<Rightarrow> echo_client_args rest (opts\<lparr>o_auto_start := value\<rparr>) w
             | Err e w \<Rightarrow> Err e w
             | Panic w \<Rightarrow> Panic w
             | Hang \<Rightarrow> Hang)
          else echo_client_args rest (opts\<lparr>o_payload := o_payload opts @ [arg]\<rparr>) w
      | Err e w \<Rightarrow> Err e w
      | Panic w \<Rightarrow> Panic w
      | Hang \<Rightarrow> Hang)"
  by pat_completeness auto
termination
  by (relation "measure (\<lambda>(argv, opts, w). length argv)")
    (auto dest!: next_arg_SomeD dest: next_arg_shorter)

declare echo_client_args.simps [simp del]

fun join_with :: "rstring \<Rightarrow> rstring list \<Rightarrow> rstring" where
  "join_with sep [] = []"
| "join_with sep [x] = x"
| "join_with sep (x # y # xs) = x @ sep @ join_with sep (y # xs)"

definition echo_client_config :: "environment \<Rightarrow> client_options \<Rightarrow> client" where
  "echo_client_config env opts =
     (let c = with_pid_file
                (client_new (path_var ''SOCKD_SOCKET'' ''/tmp/sockd-example.sock'' env))
                (path_var ''SOCKD_PID'' ''/tmp/sockd-example.pid'' env) in
      case o_auto_start opts of
        Some prog \<Rightarrow> with_auto_start_config c (auto_start_new (path_from prog))
      | None \<Rightarrow> c)"

definition echo_client_main ::
  "environment \<Rightarrow> rstring list \<Rightarrow> libc \<Rightarrow> console \<times> world \<Rightarrow> (box_error, unit, console \<times> world) run"
  where
  "echo_client_main env argv L cw =
     and_then (echo_client_args argv \<lparr>o_shutdown = False, o_auto_start = None, o_payload = []\<rparr> cw)
       (\<lambda>opts (lines, w).
     let c = echo_client_config env opts in
     if o_shutdown opts then
       and_then (map_state (Pair lines) (map_err error_display (shutdown c L w))) (\<lambda>stopped.
       print_line (if stopped then s2b ''true'' else s2b ''false''))
     else
       let message =
         (if o_payload opts = [] then s2b ''hello from rust''
          else join_with (s2b '' '') (o_payload opts)) in
       and_then (map_state (Pair lines) (map_err error_display (request c L message w)))
         (\<lambda>response. print_line (utf8_lossy response)))"

end
