(* ===== verification/Program_Properties.thy ===== *)
theory Program_Properties imports Programs begin

text \<open>
  The properties of the programs: how the test daemon reads its arguments, and that the two examples
  find each other and exchange messages.
\<close>

section \<open>Upper case\<close>

text \<open>Upper-casing ASCII letters bytewise keeps a text well-formed UTF-8: it changes no byte above
  127 and no byte into one.\<close>

lemma uppercase_small: "unat (to_ascii_uppercase b) < 128 \<longleftrightarrow> unat b < 128"
proof (cases "97 \<le> unat b \<and> unat b \<le> 122")
  case True
  then have "unat (b - 32) = unat b - 32"
    by (subst unat_sub) (simp_all add: word_le_nat_alt)
  with True show ?thesis by (auto simp: to_ascii_uppercase_def)
qed (auto simp: to_ascii_uppercase_def)

lemma uppercase_big: "128 \<le> unat b \<Longrightarrow> to_ascii_uppercase b = b"
  by (simp add: to_ascii_uppercase_def)

lemma uppercase_cases:
  obtains "unat b < 128" "unat (to_ascii_uppercase b) < 128" | "128 \<le> unat b" "to_ascii_uppercase b = b"
  using uppercase_small uppercase_big by (metis linorder_not_less)

lemma uppercase_width: "utf8_width (to_ascii_uppercase b) = utf8_width b"
  by (cases b rule: uppercase_cases) (simp_all add: utf8_width_def Let_def)

lemma uppercase_cont: "utf8_cont (to_ascii_uppercase b) = utf8_cont b"
  by (cases b rule: uppercase_cases) (simp_all add: utf8_cont_def)

lemma uppercase_second:
  assumes "utf8_width b0 \<noteq> 1"
  shows "utf8_second (to_ascii_uppercase b0) (to_ascii_uppercase b) = utf8_second b0 b"
proof -
  have b0: "to_ascii_uppercase b0 = b0"
    using assms by (cases b0 rule: uppercase_cases) (simp_all add: utf8_width_def)
  show ?thesis
    unfolding b0 by (cases b rule: uppercase_cases) (simp_all add: utf8_second_def utf8_cont_def)
qed

lemma uppercase_tail:
  "list_all2 (\<lambda>p q. \<forall>b. p b = q (to_ascii_uppercase b)) ps qs \<Longrightarrow>
   utf8_tail qs n (map to_ascii_uppercase bs) = utf8_tail ps n bs"
  by (induction ps n bs arbitrary: qs rule: utf8_tail.induct)
    (auto simp: list_all2_Cons1)

lemma uppercase_scan: "utf8_scan (map to_ascii_uppercase bs) = utf8_scan bs"
proof (cases bs)
  case (Cons b0 rest)
  show ?thesis
  proof (cases "utf8_width b0 \<le> 1")
    case True
    with Cons show ?thesis by (auto simp: utf8_scan_def uppercase_width)
  next
    case False
    have "list_all2 (\<lambda>p q. \<forall>b. p b = q (to_ascii_uppercase b))
        (take k [utf8_second b0, utf8_cont, utf8_cont])
        (take k [utf8_second (to_ascii_uppercase b0), utf8_cont, utf8_cont])" for k
      using False uppercase_second [of b0]
      by (intro list_all2_takeI) (simp add: uppercase_cont)
    with Cons False show ?thesis by (simp add: utf8_scan_def uppercase_width uppercase_tail)
  qed
qed (simp add: utf8_scan_def)

lemma uppercase_utf8: "utf8_valid (map to_ascii_uppercase bs) = utf8_valid bs"
proof (induction bs rule: utf8_valid.induct)
  case (1 bs)
  then show ?case
    by (subst (1 2) utf8_valid.simps) (simp add: uppercase_scan drop_map)
qed

section \<open>Arguments of the test daemon\<close>

text \<open>An intended option, and the arguments that ask for it.\<close>

datatype test_opt = OptSocket rstring | OptPid rstring | OptIdle nat

fun opt_args :: "test_opt \<Rightarrow> rstring list" where
  "opt_args (OptSocket s) = [s2b ''--socket'', s]"
| "opt_args (OptPid s) = [s2b ''--pid'', s]"
| "opt_args (OptIdle n) = [s2b ''--idle-ms'', show_nat n]"

fun opt_ok :: "test_opt \<Rightarrow> bool" where
  "opt_ok (OptSocket s) = utf8_valid s"
| "opt_ok (OptPid s) = utf8_valid s"
| "opt_ok (OptIdle n) = (n < 2 ^ 64)"

fun set_opt :: "test_opt \<Rightarrow> test_options \<Rightarrow> test_options" where
  "set_opt (OptSocket s) opts = opts\<lparr>t_socket := Some (path_from s)\<rparr>"
| "set_opt (OptPid s) opts = opts\<lparr>t_pid := Some (path_from s)\<rparr>"
| "set_opt (OptIdle n) opts = opts\<lparr>t_idle_ms := n\<rparr>"

definition command_line :: "test_opt list \<Rightarrow> rstring list" where
  "command_line opts = concat (map opt_args opts)"

definition no_options :: test_options where
  "no_options = \<lparr>t_socket = None, t_pid = None, t_idle_ms = 1000\<rparr>"

lemma flag_simps [simp]:
  "utf8_valid (s2b ''--socket'')" "utf8_valid (s2b ''--pid'')" "utf8_valid (s2b ''--idle-ms'')"
  "s2b ''--pid'' \<noteq> s2b ''--socket''" "s2b ''--idle-ms'' \<noteq> s2b ''--socket''"
  "s2b ''--idle-ms'' \<noteq> s2b ''--pid''"
  by (simp_all, simp_all add: s2b_def)

lemma args_opt:
  assumes "opt_ok x"
  shows "test_daemon_args (opt_args x @ rest) opts w = test_daemon_args rest (set_opt x opts) w"
  using assms
  by (cases x; subst test_daemon_args.simps) (simp_all add: test_daemon_flag_def parse_u64_show_nat)

lemma args_command_line:
  "\<forall>x \<in> set xs. opt_ok x \<Longrightarrow>
   test_daemon_args (command_line xs @ rest) opts w = test_daemon_args rest (fold set_opt xs opts) w"
  by (induction xs arbitrary: opts) (simp_all add: command_line_def args_opt)

lemma args_end [simp]: "test_daemon_args [] opts w = Ok opts w"
  by (subst test_daemon_args.simps) simp

fun socket_value :: "test_opt \<Rightarrow> rstring list" where
  "socket_value (OptSocket s) = [s]"
| "socket_value _ = []"

fun pid_value :: "test_opt \<Rightarrow> rstring list" where
  "pid_value (OptPid s) = [s]"
| "pid_value _ = []"

fun idle_value :: "test_opt \<Rightarrow> nat list" where
  "idle_value (OptIdle n) = [n]"
| "idle_value _ = []"

text \<open>Of several occurrences of an option the last one counts.\<close>

definition last_path :: "rstring list \<Rightarrow> path option" where
  "last_path ss = (if ss = [] then None else Some (path_from (last ss)))"

lemma last_path_simps [simp]: "last_path [] = None" "last_path (ss @ [s]) = Some (path_from s)"
  by (simp_all add: last_path_def)

lemma set_opts:
  "t_socket (fold set_opt xs no_options) = last_path (concat (map socket_value xs))"
  "t_pid (fold set_opt xs no_options) = last_path (concat (map pid_value xs))"
  "t_idle_ms (fold set_opt xs no_options) = last (1000 # concat (map idle_value xs))"
proof (induction xs rule: rev_induct)
  case (snoc x xs)
  {
    case 1
    from snoc show ?case by (cases x) simp_all
  next
    case 2
    from snoc show ?case by (cases x) simp_all
  next
    case 3
    from snoc show ?case by (cases x) simp_all
  }
qed (simp_all add: no_options_def)

text \<open>The daemon the program is meant to run.\<close>

definition test_daemon :: "path \<Rightarrow> path option \<Rightarrow> nat \<Rightarrow> unit daemon" where
  "test_daemon sock pid ms =
     \<lparr>config = \<lparr>socket_path = sock, pid_file = pid, idle_timeout = from_millis ms,
                poll_interval = from_millis 20, max_payload_len = 16 * 1024 * 1024\<rparr>,
      on_start = Inr (), on_request = uppercase_handler,
      on_stop = (\<lambda>_. Inr ())\<rparr>"

lemma test_daemon_builds:
  "build (let b = builder_on_request uppercase_handler
                    (builder_poll_interval (from_millis 20)
                      (builder_idle_timeout (from_millis ms) (builder_socket sock builder)))
          in case pid of None \<Rightarrow> b | Some p \<Rightarrow> builder_pid_file p b) = Inr (test_daemon sock pid ms)"
  by (simp add: build_def builder_def builder_on_request_def builder_poll_interval_def
      builder_idle_timeout_def builder_socket_def builder_pid_file_def default_daemon_config_def
      test_daemon_def DEFAULT_MAX_PAYLOAD_LEN_def Let_def
      split: option.split)

lemma main_of_args:
  "test_daemon_main argv L w =
     and_then (test_daemon_args argv no_options w) (\<lambda>opts w.
       case t_socket opts of
         None \<Rightarrow> Err (s2b ''missing --socket'') w
       | Some sock \<Rightarrow> map_err error_display (run (test_daemon sock (t_pid opts) (t_idle_ms opts)) L w))"
  unfolding test_daemon_main_def no_options_def
  by (rule arg_cong [where f = "and_then _"], intro ext)
    (simp add: Let_def test_daemon_builds [unfolded Let_def] split: option.split)

lemma main_command_line:
  assumes "\<forall>x \<in> set xs. opt_ok x"
  shows "test_daemon_main (command_line xs) L w =
     (case last_path (concat (map socket_value xs)) of
        None \<Rightarrow> Err (s2b ''missing --socket'') w
      | Some sock \<Rightarrow>
          map_err error_display
            (run (test_daemon sock (last_path (concat (map pid_value xs))) (last (1000 # concat (map idle_value xs))))
              L w))"
  using args_command_line [OF assms, of "[]" no_options w]
  by (simp add: main_of_args set_opts split: option.split)

section \<open>Properties of the test daemon\<close>

text \<open>The test daemon runs what its arguments ask for: options in any order and number, each
  written as its flag and its value, start the daemon on the last socket given, with the last PID
  file given or none, and the last idle time given or one second; \<^verbatim>\<open>run\<close>'s error is the
  program's error text. Without a socket it stops with \<^verbatim>\<open>missing --socket\<close> before it touches
  anything.\<close>

theorem test_daemon_runs_options:
  assumes "\<forall>x \<in> set xs. opt_ok x"
  shows "test_daemon_main (command_line xs) L w =
     (case last_path (concat (map socket_value xs)) of
        None \<Rightarrow> Err (s2b ''missing --socket'') w
      | Some sock \<Rightarrow>
          map_err error_display
            (run (test_daemon sock (last_path (concat (map pid_value xs))) (last (1000 # concat (map idle_value xs))))
              L w))"
  using assms by (rule main_command_line)

text \<open>An argument the test daemon cannot use stops it before it touches anything, and the first
  such argument decides: an unknown argument and a malformed idle time are reported, an argument
  that is not UTF-8 panics. A flag without its value at the end is not reported: \<^verbatim>\<open>--idle-ms\<close> is
  ignored, and \<^verbatim>\<open>--socket\<close> forgets the socket given before it.\<close>

theorem test_daemon_bad_arguments:
  assumes "\<forall>x \<in> set xs. opt_ok x"
  shows "(utf8_valid x \<and> x \<notin> {s2b ''--socket'', s2b ''--pid'', s2b ''--idle-ms''} \<longrightarrow>
            test_daemon_main (command_line xs @ x # rest) L w = Err (s2b ''unknown argument: '' @ x) w) \<and>
         (utf8_valid v \<and> parse_u64 v = Inl e \<longrightarrow>
            test_daemon_main (command_line xs @ s2b ''--idle-ms'' # v # rest) L w
              = Err (int_error_display e) w) \<and>
         (\<not> utf8_valid y \<longrightarrow> test_daemon_main (command_line xs @ y # rest) L w = Panic w) \<and>
         test_daemon_main (command_line xs @ [s2b ''--idle-ms'']) L w
           = test_daemon_main (command_line xs) L w \<and>
         test_daemon_main (command_line xs @ [s2b ''--socket'']) L w = Err (s2b ''missing --socket'') w"
proof -
  note cl = args_command_line [OF assms]
  have a: "test_daemon_args (z # zs) opts w =
      (if utf8_valid z then
         (case test_daemon_flag z zs opts w of
            Ok (opts, rest) w \<Rightarrow> test_daemon_args rest opts w
          | Err e w \<Rightarrow> Err e w
          | Panic w \<Rightarrow> Panic w
          | Hang \<Rightarrow> Hang)
       else Panic w)" for z zs opts
    by (subst test_daemon_args.simps) simp
  show ?thesis
    using cl [of "[]" no_options w]
    by (simp add: main_of_args cl a test_daemon_flag_def)
qed

text \<open>C38: A client that auto-starts the test daemon with its own paths gets a daemon where it looks: if
  a request starts a process at all, it is one, and the arguments it was started with make the test
  daemon run on the client's socket with the client's PID file and the idle time asked for.\<close>

theorem auto_started_daemon_is_reached:
  assumes "c_auto_start c = Some a" "args a = command_line [OptSocket s, OptPid p, OptIdle n]"
    and "path_from s = c_socket_path c" "c_pid_file c = Some (path_from p)"
    and "utf8_valid s" "utf8_valid p" "n < 2 ^ 64"
    and "final (request c L pl w) = Some v" "spawns v \<noteq> spawns w"
  shows "\<exists>argv. spawns v = spawns w @ [ASpawn (program a) argv] \<and>
           (\<forall>L2 u. test_daemon_main argv L2 u
              = map_err error_display (run (test_daemon (c_socket_path c) (c_pid_file c) n) L2 u))"
proof (intro exI conjI allI)
  show "spawns v = spawns w @ [ASpawn (program a) (args a)]"
    using request_spawns [of w c L pl] assms(1,8,9) by (auto simp: ends_in_final)
  have "\<forall>x \<in> set [OptSocket s, OptPid p, OptIdle n]. opt_ok x" using assms(5-7) by simp
  from main_command_line [OF this] show "test_daemon_main (args a) L2 u
      = map_err error_display (run (test_daemon (c_socket_path c) (c_pid_file c) n) L2 u)" for L2 u
    using assms(2-4) by (simp add: last_path_def)
qed

section \<open>The examples\<close>

text \<open>The daemon the example runs.\<close>

definition example_daemon :: "environment \<Rightarrow> unit daemon" where
  "example_daemon env =
     \<lparr>config = \<lparr>socket_path = path_var ''SOCKD_SOCKET'' ''/tmp/sockd-example.sock'' env,
                pid_file = Some (path_var ''SOCKD_PID'' ''/tmp/sockd-example.pid'' env),
                idle_timeout = from_secs (idle_secs_var env),
                poll_interval = from_millis 50, max_payload_len = 16 * 1024 * 1024\<rparr>,
      on_start = Inr (), on_request = uppercase_handler, on_stop = (\<lambda>_. Inr ())\<rparr>"

definition example_banner :: "environment \<Rightarrow> rstring" where
  "example_banner env =
     s2b ''sockd echo daemon listening on ''
     @ display_path (path_var ''SOCKD_SOCKET'' ''/tmp/sockd-example.sock'' env)
     @ s2b '' (pid file: ''
     @ display_path (path_var ''SOCKD_PID'' ''/tmp/sockd-example.pid'' env) @ s2b '')''"

lemma echo_daemon_runs:
  "echo_daemon_main env L (lines, w)
     = map_state (Pair (lines @ [example_banner env])) (map_err error_display (run (example_daemon env) L w))"
  by (simp add: echo_daemon_main_def print_line_def Let_def build_def builder_def example_banner_def
      builder_on_request_def builder_poll_interval_def builder_idle_timeout_def builder_socket_def
      builder_pid_file_def default_daemon_config_def example_daemon_def DEFAULT_MAX_PAYLOAD_LEN_def)

definition message_words :: "rstring list \<Rightarrow> bool" where
  "message_words ws \<longleftrightarrow>
     (\<forall>x \<in> set ws. utf8_valid x \<and> x \<noteq> s2b ''--shutdown'' \<and> x \<noteq> s2b ''--auto-start'')"

definition message_of :: "rstring list \<Rightarrow> rstring" where
  "message_of ws = (if ws = [] then s2b ''hello from rust'' else join_with (s2b '' '') ws)"

lemma echo_client_words:
  "message_words ws \<Longrightarrow>
   echo_client_args ws opts w = Ok (opts\<lparr>o_payload := o_payload opts @ ws\<rparr>) w"
  by (induction ws arbitrary: opts; subst echo_client_args.simps) (simp_all add: message_words_def)

lemma join_with_utf8: "utf8_valid sep \<Longrightarrow> \<forall>x \<in> set ws. utf8_valid x \<Longrightarrow> utf8_valid (join_with sep ws)"
  by (induction sep ws rule: join_with.induct) (simp_all add: utf8_valid_append)

lemma message_utf8: "message_words ws \<Longrightarrow> utf8_valid (message_of ws)"
  by (auto simp: message_of_def message_words_def intro!: join_with_utf8)

abbreviation example_client :: "environment \<Rightarrow> client" where
  "example_client env \<equiv>
     echo_client_config env \<lparr>o_shutdown = False, o_auto_start = None, o_payload = []\<rparr>"

lemma echo_client_main_words:
  assumes "message_words ws"
  shows "echo_client_main env ws L (lines, w) =
    and_then (map_state (Pair lines)
        (map_err error_display (request (example_client env) L (message_of ws) w)))
      (\<lambda>response. print_line (utf8_lossy response))"
proof -
  have "echo_client_config env \<lparr>o_shutdown = False, o_auto_start = None, o_payload = ws\<rparr>
      = example_client env"
    by (simp add: echo_client_config_def)
  then show ?thesis
    by (simp only: echo_client_main_def echo_client_words [OF assms] and_then.simps prod.case
        Let_def message_of_def) simp
qed

text \<open>C39: The two examples work together: started with the same environment, set or not, the echo
  daemon runs on the very socket and PID file the echo client uses, and when the client reaches it,
  the client prints its message (its arguments joined by spaces, or the default) in upper case.\<close>

theorem examples_echo:
  assumes "message_words ws" "length (message_of ws) \<le> 16 * 1024 * 1024"
    and "reaches (example_client env) w cs"
    and "joined (example_daemon env) () KRequest (message_of ws) cs ds"
  shows "(\<exists>banner. echo_daemon_main env L (lines, u)
            = map_state (Pair (lines @ [banner]))
                (map_err error_display (run (example_daemon env) L u))) \<and>
         c_socket_path (example_client env) = socket_path (config (example_daemon env)) \<and>
         c_pid_file (example_client env) = pid_file (config (example_daemon env)) \<and>
         (\<exists>ds1. process_connection (example_daemon env) ds () = Ok Continue ((), ds1)) \<and>
         (\<exists>v. echo_client_main env ws L (lines, w)
            = Ok () (lines @ [map to_ascii_uppercase (message_of ws)], v))"
proof -
  let ?c = "example_client env" and ?m = "message_of ws"
  have c: "c_socket_path ?c = socket_path (config (example_daemon env))"
    "c_pid_file ?c = pid_file (config (example_daemon env))"
    "c_max_payload_len ?c = 16 * 1024 * 1024"
    "max_payload_len (config (example_daemon env)) = 16 * 1024 * 1024"
    by (simp_all add: echo_client_config_def client_new_def with_pid_file_def example_daemon_def
        DEFAULT_MAX_PAYLOAD_LEN_def)
  have h: "on_request (example_daemon env) () ?m = (Inr (map to_ascii_uppercase ?m), ())"
    by (simp add: example_daemon_def uppercase_handler_def)
  obtain ds1 v where x: "process_connection (example_daemon env) ds () = Ok Continue ((), ds1)"
    "send_request_once ?c ?m w = Ok (map to_ascii_uppercase ?m) v"
    using request_round [OF assms(3,4) _ _ h] assms(2) c(3,4) by auto
  have "echo_client_main env ws L (lines, w) = Ok () (lines @ [map to_ascii_uppercase ?m], v)"
    using x(2) message_utf8 [OF assms(1)]
    by (simp add: echo_client_main_words [OF assms(1)] request_def print_line_def
        utf8_lossy_valid_id uppercase_utf8)
  with c x(1) show ?thesis
    using echo_daemon_runs by blast
qed

section \<open>Witnesses\<close>

theorem test_daemon_runs_options_witness:
  "test_daemon_main
     [s2b ''--socket'', s2b ''/tmp/a'', s2b ''--idle-ms'', s2b ''250'', s2b ''--socket'', s2b ''/b'']
     quiet_libc (base_world Map.empty)
   = map_err error_display (run (test_daemon [s2b ''b''] None 250) quiet_libc (base_world Map.empty))"
proof -
  have u: "utf8_valid (s2b ''/tmp/a'')" "utf8_valid (s2b ''/b'')" by simp_all
  have n: "show_nat 250 = s2b ''250''"
    by (subst show_nat.simps, simp, subst show_nat.simps, simp, subst show_nat.simps)
      (simp add: s2b_def)
  have p: "path_from (s2b ''/b'') = [s2b ''b'']" by (simp add: path_from_def s2b_def)
  from test_daemon_runs_options [of "[OptSocket (s2b ''/tmp/a''), OptIdle 250, OptSocket (s2b ''/b'')]"
      quiet_libc "base_world Map.empty"] u
  show ?thesis by (simp add: command_line_def n p last_path_def)
qed

theorem test_daemon_bad_arguments_witness:
  "test_daemon_main [s2b ''--pid'', s2b ''/p'', s2b ''--idle-ms'', s2b ''12x''] quiet_libc
     (base_world Map.empty)
   = Err (s2b ''invalid digit found in string'') (base_world Map.empty)"
proof -
  have ok: "\<forall>x \<in> set [OptPid (s2b ''/p'')]. opt_ok x" by simp
  have v: "utf8_valid (s2b ''12x'')" by simp
  have e: "parse_u64 (s2b ''12x'') = Inl InvalidDigit"
    by (simp add: parse_u64_def s2b_def digit_val_def)
  from test_daemon_bad_arguments [OF ok, where v = "s2b ''12x''" and rest = "[]"
      and L = quiet_libc and w = "base_world Map.empty" and e = InvalidDigit] v e
  show ?thesis by (simp add: command_line_def)
qed

definition test_client :: client where
  "test_client =
     with_auto_start_config demo_client
       (with_args (auto_start_new [s2b ''daemon''])
         (command_line [OptSocket (s2b ''/tmp/d.sock''), OptPid (s2b ''/tmp/d.pid''), OptIdle 250]))"

lemma demo_path_strings:
  "path_from (s2b ''/tmp/d.sock'') = demo_sock_path" "path_from (s2b ''/tmp/d.pid'') = demo_pid_path"
  by (simp_all add: path_from_def demo_sock_path_def demo_pid_path_def s2b_def)

theorem auto_started_daemon_is_reached_witness:
  "\<exists>v argv. final (request test_client quiet_libc [1] (idle_world (pid_line 9))) = Some v \<and>
     spawns v = [ASpawn [s2b ''daemon''] argv] \<and>
     test_daemon_main argv quiet_libc v
       = map_err error_display (run (test_daemon demo_sock_path (Some demo_pid_path) 250) quiet_libc v)"
proof -
  let ?w = "idle_world (pid_line 9)"
  let ?xs = "[OptSocket (s2b ''/tmp/d.sock''), OptPid (s2b ''/tmp/d.pid''), OptIdle 250]"
  let ?a = "with_args (auto_start_new [s2b ''daemon'']) (command_line ?xs)"
  have c: "c_auto_start test_client = Some ?a" "c_socket_path test_client = demo_sock_path"
    "c_pid_file test_client = Some demo_pid_path"
    by (simp_all add: test_client_def with_auto_start_config_def)
  have a: "args ?a = command_line ?xs" "program ?a = [s2b ''daemon'']" "0 < initial_backoff ?a"
    "0 < max_backoff ?a" "ready_timeout ?a = 2000000000"
    using demo_timeouts by (simp_all add: with_args_def auto_start_new_def)
  have un: "unreachable test_client ?w" by (simp add: unreachable_def c)
  have dead: "pid_file_points_to_live_process test_client quiet_libc ?w = Ok False ?w"
    by (simp add: pid_file_points_to_live_process_def c read_pid_def read_to_string_def syscall_def
        lookup_plain parse_pid_line is_process_alive_def model_alive Let_def)
  obtain v where v: "recover_if_needed test_client quiet_libc (Io (os_error NotFound)) ?w
      = Err (ReadyTimeout demo_sock_path 2000000000) v" "spawns v = [ASpawn [s2b ''daemon''] (args ?a)]"
    using idle_recovery [OF un c(1) _ dead a(3-5), of "os_error NotFound"] a(2)
    by (auto simp: recoverable_connect_error_def c)
  have "send_request_once test_client [1] ?w = Err (Io (os_error NotFound)) ?w"
    by (simp add: send_request_once_def connect_def unix_connect_def syscall_def lookup_missing c)
  with v(1) have fin: "final (request test_client quiet_libc [1] ?w) = Some v"
    by (simp add: request_def)
  have "spawns v \<noteq> spawns ?w" using v(2) by simp
  from auto_started_daemon_is_reached [OF c(1) a(1) _ _ _ _ _ fin this] c
  obtain argv where "spawns v = [ASpawn (program ?a) argv]"
    "test_daemon_main argv quiet_libc v
       = map_err error_display (run (test_daemon demo_sock_path (Some demo_pid_path) 250) quiet_libc v)"
    by (auto simp: demo_path_strings)
  with fin a(2) show ?thesis by auto
qed

definition demo_env :: environment where
  "demo_env = [s2b ''SOCKD_SOCKET'' \<mapsto> s2b ''/tmp/d.sock'']"

theorem examples_echo_witness:
  "\<exists>v. echo_client_main demo_env [s2b ''hi''] quiet_libc
         ([], live_world [demo_stream [Chunk (frame_bytes KResponse 0 (s2b ''HI''))]])
       = Ok () ([s2b ''HI''], v)"
proof -
  let ?d = "example_daemon demo_env"
  have m: "message_of [s2b ''hi''] = s2b ''hi''" "message_words [s2b ''hi'']"
    by (simp add: message_of_def) (simp add: message_words_def, simp add: s2b_def)
  have up: "map to_ascii_uppercase (s2b ''hi'') = s2b ''HI''"
    by (simp add: s2b_def to_ascii_uppercase_def)
  have env: "env_var ''SOCKD_SOCKET'' demo_env = Some (s2b ''/tmp/d.sock'')"
    by (simp add: env_var_def demo_env_def)
  have r: "reaches (example_client demo_env)
      (live_world [demo_stream [Chunk (frame_bytes KResponse 0 (s2b ''HI''))]])
      (demo_stream [Chunk (frame_bytes KResponse 0 (s2b ''HI''))])"
    by (simp add: reaches_def live_world_def echo_client_config_def path_var_def env
        demo_path_strings with_pid_file_def client_new_def)
  have a: "answer ?d () \<lparr>kind = KRequest, flags = 0, payload = s2b ''hi''\<rparr>
      = (KResponse, s2b ''HI'', Continue, ())"
    by (simp add: answer_def example_daemon_def uppercase_handler_def up)
  have j: "joined ?d () KRequest (message_of [s2b ''hi''])
      (demo_stream [Chunk (frame_bytes KResponse 0 (s2b ''HI''))])
      (demo_stream [Chunk (frame_bytes KRequest 0 (s2b ''hi''))])"
    unfolding m(1) by (rule demo_joined [OF a]) (simp_all add: example_daemon_def)
  from examples_echo [OF m(2) _ r j, where L = quiet_libc and lines = "[]"] m(1) up
  show ?thesis by simp
qed

end
