(* ===== verification/Partial_IO.thy ===== *)
theory Partial_IO imports Frame begin

text \<open>
  \<^verbatim>\<open>src/frame.rs\<close> over any \<^verbatim>\<open>Read\<close> and \<^verbatim>\<open>Write\<close>: \<^verbatim>\<open>read_frame\<close> and \<^verbatim>\<open>write_frame\<close> are generic
  in the reader and the writer, and so are they here. A reader is a function of the buffer's length
  that answers the bytes it stored, a writer a function of the buffer that answers how much of it was
  taken; the standard library's \<^verbatim>\<open>read_exact\<close> and \<^verbatim>\<open>write_all\<close> are their loops, which may go on for
  ever. The event streams of theory Frame are one such reader and writer, and every other one
  behaves like some stream; the \<^verbatim>\<open>PartialReader\<close> and \<^verbatim>\<open>PartialWriter\<close> of the unit tests are others.
\<close>

section \<open>The standard library's loops\<close>

type_synonym 'r reader = "nat \<Rightarrow> 'r \<Rightarrow> (io_error, bytes, 'r) run"
type_synonym 'w writer = "bytes \<Rightarrow> 'w \<Rightarrow> (io_error, nat, 'w) run"

text \<open>A reader or writer that reports more bytes than the buffer has makes the slice expression of
  the loop panic.\<close>

partial_function (option) read_loop ::
  "'r reader \<Rightarrow> nat \<Rightarrow> bytes \<Rightarrow> 'r \<Rightarrow> (io_error, bytes, 'r) run option" where
  "read_loop read n acc r =
     (if n = 0 then Some (Ok acc r)
      else case read n r of
        Ok c r' \<Rightarrow>
          if c = [] then Some (Err eof_error r')
          else if n < length c then Some (Panic r')
          else read_loop read (n - length c) (acc @ c) r'
      | Err e r' \<Rightarrow>
          if io_kind e = Interrupted then read_loop read n acc r' else Some (Err e r')
      | Panic r' \<Rightarrow> Some (Panic r')
      | Hang \<Rightarrow> Some Hang)"

definition read_exact_of :: "'r reader \<Rightarrow> nat \<Rightarrow> 'r \<Rightarrow> (io_error, bytes, 'r) run" where
  "read_exact_of read n r = unhang (read_loop read n [] r)"

partial_function (option) write_loop ::
  "'w writer \<Rightarrow> bytes \<Rightarrow> 'w \<Rightarrow> (io_error, unit, 'w) run option" where
  "write_loop write buf w =
     (if buf = [] then Some (Ok () w)
      else case write buf w of
        Ok n w' \<Rightarrow>
          if n = 0 then Some (Err write_zero_error w')
          else if length buf < n then Some (Panic w')
          else write_loop write (drop n buf) w'
      | Err e w' \<Rightarrow>
          if io_kind e = Interrupted then write_loop write buf w' else Some (Err e w')
      | Panic w' \<Rightarrow> Some (Panic w')
      | Hang \<Rightarrow> Some Hang)"

definition write_all_of :: "'w writer \<Rightarrow> bytes \<Rightarrow> 'w \<Rightarrow> (io_error, unit, 'w) run" where
  "write_all_of write buf w = unhang (write_loop write buf w)"

section \<open>Frames through any reader and writer\<close>

definition read_frame_of :: "'r reader \<Rightarrow> nat \<Rightarrow> 'r \<Rightarrow> (frame, 'r) result" where
  "read_frame_of read max_payload_len reader =
     and_then (map_err Io (read_exact_of read HEADER_LEN reader)) (\<lambda>header_buf reader.
     and_then (lift_result (header_decode header_buf) reader) (\<lambda>header reader.
       let payload_len = unat (h_payload_len header) in
       if payload_len > max_payload_len
       then Err (PayloadTooLarge payload_len max_payload_len) reader
       else and_then (map_err Io (read_exact_of read payload_len reader)) (\<lambda>payload reader.
         Ok \<lparr>kind = h_kind header, flags = h_flags header, payload = payload\<rparr> reader)))"

definition write_frame_with_flags_of ::
  "'w writer \<Rightarrow> ('w \<Rightarrow> (io_error, unit, 'w) run) \<Rightarrow> frame_kind \<Rightarrow> u16 \<Rightarrow> bytes \<Rightarrow> 'w
   \<Rightarrow> (unit, 'w) result" where
  "write_frame_with_flags_of write flush_w k fl pl writer =
     (if length pl > 2 ^ 32 - 1 then Err (PayloadTooLarge (length pl) (2 ^ 32 - 1)) writer
      else
        let header = \<lparr>h_kind = k, h_flags = fl, h_payload_len = of_nat (length pl)\<rparr> in
        and_then (map_err Io (write_all_of write (header_encode header) writer)) (\<lambda>_ writer.
        and_then (map_err Io (write_all_of write pl writer)) (\<lambda>_ writer.
        map_err Io (flush_w writer))))"

definition write_frame_of ::
  "'w writer \<Rightarrow> ('w \<Rightarrow> (io_error, unit, 'w) run) \<Rightarrow> frame_kind \<Rightarrow> bytes \<Rightarrow> 'w
   \<Rightarrow> (unit, 'w) result" where
  "write_frame_of write flush_w k pl writer = write_frame_with_flags_of write flush_w k 0 pl writer"

section \<open>The event streams as a reader and a writer\<close>

text \<open>One call of \<^verbatim>\<open>read\<close> or \<^verbatim>\<open>write\<close> on a stream.\<close>

definition stream_read :: "stream reader" where
  "stream_read n s = (case inbox s of
      [] \<Rightarrow> if peer_closed s then Ok [] s else Hang
    | Chunk c # evs \<Rightarrow>
        if length c \<le> n then Ok c (s\<lparr>inbox := evs\<rparr>)
        else Ok (take n c) (s\<lparr>inbox := Chunk (drop n c) # evs\<rparr>)
    | ReadErr e # evs \<Rightarrow> Err e (s\<lparr>inbox := evs\<rparr>))"

definition stream_write :: "stream writer" where
  "stream_write buf s = (case room s of
      [] \<Rightarrow> Ok (length buf) (s\<lparr>outbox := outbox s @ buf\<rparr>)
    | Accept n # evs \<Rightarrow>
        Ok (min n (length buf)) (s\<lparr>room := evs, outbox := outbox s @ take n buf\<rparr>)
    | WriteErr e # evs \<Rightarrow> Err e (s\<lparr>room := evs\<rparr>)
    | WriteBlock # evs \<Rightarrow> Hang)"

lemma read_loop_0 [simp]: "read_loop read 0 acc r = Some (Ok acc r)"
  by (simp add: read_loop.simps)

lemma write_loop_Nil [simp]: "write_loop write [] w = Some (Ok () w)"
  by (simp add: write_loop.simps)

lemma read_loop_stream:
  "read_loop stream_read n acc s
   = Some (map_state (\<lambda>evs. s\<lparr>inbox := evs\<rparr>) (fill n acc (peer_closed s) (inbox s)))"
proof (induction n acc "peer_closed s" "inbox s" arbitrary: s rule: fill.induct)
  case (1 n acc)
  then show ?case by (simp add: read_loop.simps stream_read_def split: list.splits)
next
  case (2 n acc c evs)
  show ?case
  proof (cases "n = 0 \<or> c = [] \<or> \<not> length c \<le> n")
    case True
    then show ?thesis
      unfolding 2(2)[symmetric]
      by (subst read_loop.simps) (auto simp: stream_read_def 2(2)[symmetric])
  next
    case False
    have "read_loop stream_read (n - length c) (acc @ c) (s\<lparr>inbox := evs\<rparr>)
       = Some (map_state (\<lambda>evs'. s\<lparr>inbox := evs'\<rparr>)
           (fill (n - length c) (acc @ c) (peer_closed s) evs))"
      using 2(1) [of "s\<lparr>inbox := evs\<rparr>"] False by simp
    with False show ?thesis
      unfolding 2(2)[symmetric]
      by (subst read_loop.simps) (auto simp: stream_read_def 2(2)[symmetric])
  qed
next
  case (3 n acc e evs)
  have "n \<noteq> 0 \<Longrightarrow> io_kind e = Interrupted \<Longrightarrow>
      read_loop stream_read n acc (s\<lparr>inbox := evs\<rparr>)
       = Some (map_state (\<lambda>evs'. s\<lparr>inbox := evs'\<rparr>) (fill n acc (peer_closed s) evs))"
    using 3(1) [of "s\<lparr>inbox := evs\<rparr>"] by simp
  then show ?case
    unfolding 3(2)[symmetric]
    by (subst read_loop.simps) (auto simp: stream_read_def 3(2)[symmetric])
qed

lemma read_exact_of_stream: "read_exact_of stream_read n s = read_exact n s"
  by (simp add: read_exact_of_def read_loop_stream read_exact_def)

lemma write_loop_stream:
  "write_loop stream_write buf s
   = Some (map_state (\<lambda>(evs, out). s\<lparr>room := evs, outbox := out\<rparr>)
       (drain buf (outbox s) (room s)))"
proof (induction buf "outbox s" "room s" arbitrary: s rule: drain.induct)
  case (1 buf)
  then show ?case
    by (subst write_loop.simps) (auto simp: stream_write_def split: list.splits)
next
  case (2 buf n evs)
  show ?case
  proof (cases "buf = [] \<or> n = 0")
    case True
    then show ?thesis
      unfolding 2(2)[symmetric]
      by (subst write_loop.simps) (auto simp: stream_write_def 2(2)[symmetric])
  next
    case False
    let ?s = "s\<lparr>room := evs, outbox := outbox s @ take n buf\<rparr>"
    have "write_loop stream_write (drop n buf) ?s
       = Some (map_state (\<lambda>(evs', out). s\<lparr>room := evs', outbox := out\<rparr>)
           (drain (drop n buf) (outbox s @ take n buf) evs))"
      using 2(1) [of ?s] False by simp
    with False show ?thesis
      unfolding 2(2)[symmetric]
      by (subst write_loop.simps)
        (auto simp: stream_write_def 2(2)[symmetric] min_def not_le)
  qed
next
  case (3 buf e evs)
  have "buf \<noteq> [] \<Longrightarrow> io_kind e = Interrupted \<Longrightarrow>
      write_loop stream_write buf (s\<lparr>room := evs\<rparr>)
       = Some (map_state (\<lambda>(evs', out). s\<lparr>room := evs', outbox := out\<rparr>)
           (drain buf (outbox s) evs))"
    using 3(1) [of "s\<lparr>room := evs\<rparr>"] by simp
  then show ?case
    unfolding 3(2)[symmetric]
    by (subst write_loop.simps) (auto simp: stream_write_def 3(2)[symmetric])
next
  case (4 buf evs)
  then show ?case
    unfolding 4(1)[symmetric]
    by (subst write_loop.simps) (auto simp: stream_write_def 4(1)[symmetric])
qed

lemma write_all_of_stream: "write_all_of stream_write buf s = write_all buf s"
  by (simp add: write_all_of_def write_loop_stream write_all_def)

section \<open>Every reader and writer is a stream\<close>

text \<open>The events a reader went through while it served a read of \<open>n\<close> bytes explain its result: a
  stream that starts with them gives the same result and keeps what follows.\<close>

definition explains_read ::
  "nat \<Rightarrow> bytes \<Rightarrow> (io_error, bytes, 'r) run \<Rightarrow> read_ev list \<Rightarrow> bool" where
  "explains_read n acc res evs \<longleftrightarrow> (case res of
      Ok b r \<Rightarrow> \<forall>closed tail. fill n acc closed (evs @ tail) = Ok b tail
    | Err e r \<Rightarrow> \<forall>closed tail. fill n acc closed (evs @ tail) = Err e tail
    | Panic r \<Rightarrow> True
    | Hang \<Rightarrow> fill n acc False evs = Hang)"

definition explains_write ::
  "bytes \<Rightarrow> (io_error, unit, 'w) run \<Rightarrow> write_ev list \<Rightarrow> bool" where
  "explains_write buf res evs \<longleftrightarrow> (case res of
      Ok u w \<Rightarrow> \<forall>out tail. drain buf out (evs @ tail) = Ok () (tail, out @ buf)
    | Err e w \<Rightarrow> \<forall>out tail. \<exists>sent. drain buf out (evs @ tail) = Err e (tail, sent)
    | Panic w \<Rightarrow> True
    | Hang \<Rightarrow> \<forall>out tail. drain buf out (evs @ tail) = Hang)"

lemma explains_read_Err:
  "0 < n \<Longrightarrow> io_kind e \<noteq> Interrupted \<Longrightarrow> explains_read n acc (Err e r) [ReadErr e]"
  by (simp add: explains_read_def)

lemma explains_read_eof: "0 < n \<Longrightarrow> explains_read n acc (Err eof_error r) [Chunk []]"
  by (simp add: explains_read_def)

lemma explains_Panic [simp]:
  "explains_read n acc (Panic r) evs" "explains_write buf (Panic w) wevs"
  by (simp_all add: explains_read_def explains_write_def)

lemma explains_read_Hang: "0 < n \<Longrightarrow> explains_read n acc Hang []"
  by (simp add: explains_read_def)

lemma explains_read_Chunk:
  "0 < n \<Longrightarrow> c \<noteq> [] \<Longrightarrow> length c \<le> n \<Longrightarrow> explains_read (n - length c) (acc @ c) res evs
   \<Longrightarrow> explains_read n acc res (Chunk c # evs)"
  by (auto simp: explains_read_def split: run.splits)

lemma explains_read_Interrupted:
  "0 < n \<Longrightarrow> io_kind e = Interrupted \<Longrightarrow> explains_read n acc res evs
   \<Longrightarrow> explains_read n acc res (ReadErr e # evs)"
  by (auto simp: explains_read_def split: run.splits)

lemma fill_0: "fill 0 acc closed evs = Ok acc evs"
  by (cases "(0 :: nat, acc, closed, evs)" rule: fill.cases) simp_all

lemma explains_read_0: "explains_read 0 acc (Ok acc r) []"
  by (simp add: explains_read_def fill_0)

lemma read_loop_explained:
  assumes "read_loop read n acc r = Some res"
  shows "\<exists>evs. explains_read n acc res evs"
  using assms
proof (rule read_loop.raw_induct [where P = "\<lambda>read n acc r res. \<exists>evs. explains_read n acc res evs",
      rotated], goal_cases)
  case (1 loop read n acc r res)
  show ?case
  proof (cases "n = 0")
    case True
    with 1(2) have "res = Ok acc r" by simp
    then show ?thesis using True by (auto intro: exI explains_read_0)
  next
    case False
    then have n: "0 < n" by simp
    show ?thesis
    proof (cases "read n r")
      case (Ok c r')
      consider "c = []" | "c \<noteq> []" "n < length c" | "c \<noteq> []" "length c \<le> n" by linarith
      then show ?thesis
      proof cases
        case 1
        with \<open>_ = Some res\<close> Ok n show ?thesis by (auto intro: exI explains_read_eof)
      next
        case 2
        with \<open>_ = Some res\<close> Ok n show ?thesis by auto
      next
        case 3
        with \<open>_ = Some res\<close> Ok n have "loop read (n - length c) (acc @ c) r' = Some res"
          by simp
        from 1(1) [OF this] explains_read_Chunk [OF n 3] show ?thesis by blast
      qed
    next
      case (Err e r')
      show ?thesis
      proof (cases "io_kind e = Interrupted")
        case True
        with Err n \<open>_ = Some res\<close> have "loop read n acc r' = Some res" by simp
        from 1(1) [OF this] explains_read_Interrupted [OF n True] show ?thesis by blast
      next
        case False
        with Err n \<open>_ = Some res\<close> have "res = Err e r'" by simp
        with n False show ?thesis by (auto intro: exI explains_read_Err)
      qed
    next
      case (Panic r')
      with n \<open>_ = Some res\<close> have "res = Panic r'" by simp
      then show ?thesis by simp
    next
      case Hang
      with n \<open>_ = Some res\<close> have "res = Hang" by simp
      with n show ?thesis by (auto intro: exI explains_read_Hang)
    qed
  qed
qed

lemma explains_write_Nil: "explains_write [] (Ok u w) []"
  by (simp add: explains_write_def drain_empty)

lemma explains_write_Err:
  "buf \<noteq> [] \<Longrightarrow> io_kind e \<noteq> Interrupted \<Longrightarrow> explains_write buf (Err e w) [WriteErr e]"
  by (simp add: explains_write_def)

lemma explains_write_zero: "buf \<noteq> [] \<Longrightarrow> explains_write buf (Err write_zero_error w) [Accept 0]"
  by (simp add: explains_write_def)

lemma explains_write_Hang: "buf \<noteq> [] \<Longrightarrow> explains_write buf Hang [WriteBlock]"
  by (simp add: explains_write_def)

lemma explains_write_Accept:
  "buf \<noteq> [] \<Longrightarrow> 0 < n \<Longrightarrow> explains_write (drop n buf) res evs
   \<Longrightarrow> explains_write buf res (Accept n # evs)"
  by (auto simp: explains_write_def split: run.splits)

lemma explains_write_Interrupted:
  "buf \<noteq> [] \<Longrightarrow> io_kind e = Interrupted \<Longrightarrow> explains_write buf res evs
   \<Longrightarrow> explains_write buf res (WriteErr e # evs)"
  by (auto simp: explains_write_def split: run.splits)

lemma write_loop_explained:
  assumes "write_loop write buf w = Some res"
  shows "\<exists>evs. explains_write buf res evs"
  using assms
proof (rule write_loop.raw_induct [where P = "\<lambda>write buf w res. \<exists>evs. explains_write buf res evs",
      rotated], goal_cases)
  case (1 loop wr buf w res)
  show ?case
  proof (cases "buf = []")
    case True
    with 1(2) have "res = Ok () w" by simp
    then show ?thesis using True by (auto intro: exI explains_write_Nil)
  next
    case False
    note b = this
    show ?thesis
    proof (cases "wr buf w")
      case (Ok n w')
      consider "n = 0" | "0 < n" "length buf < n" | "0 < n" "n \<le> length buf" by linarith
      then show ?thesis
      proof cases
        case 1
        with \<open>_ = Some res\<close> Ok b show ?thesis by (auto intro: exI explains_write_zero)
      next
        case 2
        with \<open>_ = Some res\<close> Ok b show ?thesis by auto
      next
        case 3
        with \<open>_ = Some res\<close> Ok b have "loop wr (drop n buf) w' = Some res" by simp
        from 1(1) [OF this] explains_write_Accept [OF b 3(1)] show ?thesis by blast
      qed
    next
      case (Err e w')
      show ?thesis
      proof (cases "io_kind e = Interrupted")
        case True
        with Err b \<open>_ = Some res\<close> have "loop wr buf w' = Some res" by simp
        from 1(1) [OF this] explains_write_Interrupted [OF b True] show ?thesis by blast
      next
        case False
        with Err b \<open>_ = Some res\<close> have "res = Err e w'" by simp
        with b False show ?thesis by (auto intro: exI explains_write_Err)
      qed
    next
      case (Panic w')
      with b \<open>_ = Some res\<close> have "res = Panic w'" by simp
      then show ?thesis by simp
    next
      case Hang
      with b \<open>_ = Some res\<close> have "res = Hang" by simp
      with b show ?thesis by (auto intro: exI explains_write_Hang)
    qed
  qed
qed

text \<open>The same for the finished loops, where going on for ever is a stream that blocks.\<close>

lemma read_exact_of_explained: "\<exists>evs. explains_read n [] (read_exact_of read n r) evs"
proof (cases "read_loop read n [] r")
  case None
  then have "n \<noteq> 0" by (cases "n = 0") simp_all
  with None show ?thesis by (auto simp: read_exact_of_def intro: exI explains_read_Hang)
next
  case (Some res)
  with read_loop_explained [OF Some] show ?thesis by (simp add: read_exact_of_def)
qed

lemma write_all_of_explained: "\<exists>evs. explains_write buf (write_all_of write buf w) evs"
proof (cases "write_loop write buf w")
  case None
  then have "buf \<noteq> []" by (cases "buf = []") simp_all
  with None show ?thesis by (auto simp: write_all_of_def intro: exI explains_write_Hang)
next
  case (Some res)
  with write_loop_explained [OF Some] show ?thesis by (simp add: write_all_of_def)
qed

text \<open>What a run answers, its state aside.\<close>

abbreviation answers :: "('e, 'a, 'w) run \<Rightarrow> ('e, 'a, unit) run" where
  "answers \<equiv> map_state (\<lambda>_. ())"

definition reading :: "read_ev list \<Rightarrow> stream" where
  "reading evs = \<lparr>inbox = evs, peer_closed = False, room = [], outbox = [], flush_result = None\<rparr>"

definition writing :: "write_ev list \<Rightarrow> io_error option \<Rightarrow> bytes \<Rightarrow> stream" where
  "writing evs fl out =
     \<lparr>inbox = [], peer_closed = False, room = evs, outbox = out, flush_result = fl\<rparr>"

lemma read_exact_reading:
  "explains_read n [] (Ok b r) evs \<Longrightarrow> read_exact n (reading (evs @ tail)) = Ok b (reading tail)"
  "explains_read n [] (Err e r) evs \<Longrightarrow> read_exact n (reading (evs @ tail)) = Err e (reading tail)"
  "explains_read n [] Hang evs \<Longrightarrow> read_exact n (reading evs) = Hang"
  by (simp_all add: explains_read_def read_exact_def reading_def)

lemma write_all_writing:
  "explains_write buf (Ok u w) evs \<Longrightarrow>
   write_all buf (writing (evs @ tail) fl out) = Ok () (writing tail fl (out @ buf))"
  "explains_write buf (Err e w) evs \<Longrightarrow> \<exists>s. write_all buf (writing (evs @ tail) fl out) = Err e s"
  "explains_write buf Hang evs \<Longrightarrow> write_all buf (writing (evs @ tail) fl out) = Hang"
  by (simp add: explains_write_def write_all_def writing_def,
      force simp: explains_write_def write_all_def writing_def run_iffs,
      simp add: explains_write_def write_all_def writing_def)

lemma read_frame_of_explained:
  assumes "\<And>r'. read_frame_of read m r \<noteq> Panic r'"
  shows "\<exists>evs. answers (read_frame_of read m r) = answers (read_frame m (reading evs))"
proof -
  obtain evs where evs: "explains_read HEADER_LEN [] (read_exact_of read HEADER_LEN r) evs"
    by (rule exE [OF read_exact_of_explained])
  show ?thesis
  proof (cases "read_exact_of read HEADER_LEN r")
    case (Ok hb r1)
    note hdr = evs [unfolded Ok]
    show ?thesis
    proof (cases "header_decode hb")
      case (Inr h)
      let ?n = "unat (h_payload_len h)"
      obtain evs' where evs': "explains_read ?n [] (read_exact_of read ?n r1) evs'"
        by (rule exE [OF read_exact_of_explained])
      show ?thesis
      proof (cases "m < ?n")
        case True
        with Ok Inr read_exact_reading(1) [OF hdr, of "[]"] show ?thesis
          by (intro exI [of _ "evs @ []"]) (simp add: read_frame_def read_frame_of_def Let_def)
      next
        case False
        note big = this
        have unf: "read_frame_of read m r = and_then (map_err Io (read_exact_of read ?n r1))
            (\<lambda>payload reader. Ok \<lparr>kind = h_kind h, flags = h_flags h, payload = payload\<rparr> reader)"
          using Ok Inr big by (simp add: read_frame_of_def Let_def)
        have "answers (read_frame_of read m r) = answers (read_frame m (reading (evs @ evs' @ [])))"
          using read_exact_reading(1) [OF hdr, of "evs' @ []"] Inr big evs' assms
          by (cases "read_exact_of read ?n r1")
            (auto simp: read_frame_def unf Let_def
              dest: read_exact_reading(1,2) [where tail = "[]"] read_exact_reading(3))
        then show ?thesis by blast
      qed
    qed (use Ok read_exact_reading(1) [OF hdr, of "[]"] in
        \<open>auto simp: read_frame_def read_frame_of_def intro!: exI [of _ "evs @ []"]\<close>)
  next
    case (Err e r1)
    with evs read_exact_reading(2) [of HEADER_LEN e r1 evs "[]"] show ?thesis
      by (intro exI [of _ "evs @ []"]) (simp add: read_frame_def read_frame_of_def)
  next
    case (Panic r1)
    then have "read_frame_of read m r = Panic r1" by (simp add: read_frame_of_def)
    with assms show ?thesis by blast
  next
    case Hang
    with evs show ?thesis
      by (intro exI [of _ evs]) (simp add: read_frame_def read_frame_of_def read_exact_reading(3))
  qed
qed


lemma flush_writing:
  "flush (writing evs fl out)
   = (case fl of None \<Rightarrow> Ok () (writing evs fl out) | Some e \<Rightarrow> Err e (writing evs fl out))"
  by (simp add: flush_def writing_def split: option.splits)

lemma write_frame_of_explained:
  fixes fw :: "'w \<Rightarrow> (io_error, unit, 'w) run"
  assumes "\<And>w'. write_frame_with_flags_of write fw k fl pl w \<noteq> Panic w'"
    and "\<And>w1. fw w1 \<noteq> Hang"
  shows "\<exists>evs fr. answers (write_frame_with_flags_of write fw k fl pl w)
              = answers (write_frame_with_flags k fl pl (writing evs fr []))"
proof (cases "length pl > 2 ^ 32 - 1")
  case True
  then show ?thesis by (simp add: write_frame_with_flags_of_def write_frame_with_flags_def)
next
  case False
  note len = this
  let ?he = "header_encode \<lparr>h_kind = k, h_flags = fl, h_payload_len = of_nat (length pl)\<rparr>"
  obtain evs where evs: "explains_write ?he (write_all_of write ?he w) evs"
    by (rule exE [OF write_all_of_explained])
  show ?thesis
  proof (cases "write_all_of write ?he w")
    case (Ok u w1)
    note hdr = write_all_writing(1) [OF evs [unfolded Ok]]
    obtain evs' where evs': "explains_write pl (write_all_of write pl w1) evs'"
      by (rule exE [OF write_all_of_explained])
    show ?thesis
    proof (cases "write_all_of write pl w1")
      case (Ok u' w2)
      note pay = write_all_writing(1) [OF evs' [unfolded Ok], of "[]"]
      define fr where "fr = (case fw w2 of Err e w \<Rightarrow> Some e | _ \<Rightarrow> None)"
      have "fw w2 \<noteq> Panic w'" for w'
        using assms(1) [of w'] len Ok \<open>write_all_of write ?he w = _\<close>
        by (auto simp: write_frame_with_flags_of_def Let_def)
      then show ?thesis
        using len Ok \<open>write_all_of write ?he w = _\<close> assms(2) [of w2] pay hdr [of "evs' @ []" fr]
        by (intro exI [of _ "evs @ evs' @ []"] exI [of _ fr], cases "fw w2")
          (auto simp: write_frame_with_flags_of_def write_frame_with_flags_def Let_def
            flush_writing fr_def)
    next
      case (Err e w2)
      obtain s where "write_all pl (writing (evs' @ []) None ([] @ ?he)) = Err e s"
        using write_all_writing(2) [OF evs' [unfolded Err]] by blast
      with len Err \<open>write_all_of write ?he w = _\<close> hdr [of "evs' @ []" None "[]"] show ?thesis
        by (auto simp: write_frame_with_flags_of_def write_frame_with_flags_def Let_def
            intro!: exI [of _ "evs @ evs' @ []"] exI [of _ None])
    next
      case (Panic w2)
      with len \<open>write_all_of write ?he w = _\<close> assms(1) [of w2] show ?thesis
        by (simp add: write_frame_with_flags_of_def)
    next
      case Hang
      with len \<open>write_all_of write ?he w = _\<close> evs' hdr [of "evs' @ []" None] show ?thesis
        by (intro exI [of _ "evs @ evs' @ []"] exI [of _ None])
          (simp add: write_frame_with_flags_of_def write_frame_with_flags_def
            write_all_writing(3) [where tail = "[]", simplified])
    qed
  next
    case (Err e w1)
    from write_all_writing(2) [OF evs [unfolded Err], of "[]" None "[]"] len Err
    show ?thesis
      by (auto simp: write_frame_with_flags_of_def write_frame_with_flags_def Let_def
          intro!: exI [of _ evs] exI [of _ None])
  next
    case (Panic w1)
    with len assms(1) [of w1] show ?thesis by (simp add: write_frame_with_flags_of_def)
  next
    case Hang
    with len evs show ?thesis
      by (intro exI [of _ evs] exI [of _ None])
        (simp add: write_frame_with_flags_of_def write_frame_with_flags_def
          write_all_writing(3) [where tail = "[]", simplified])
  qed
qed


text \<open>What the traits ask of an implementation, as far as the loops rely on it.\<close>

definition honest_read :: "'r reader \<Rightarrow> bool" where
  "honest_read read \<longleftrightarrow>
     (\<forall>n r. (\<forall>r'. read n r \<noteq> Panic r') \<and> (\<forall>c r'. read n r = Ok c r' \<longrightarrow> length c \<le> n))"

definition honest_write :: "'w writer \<Rightarrow> ('w \<Rightarrow> (io_error, unit, 'w) run) \<Rightarrow> bool" where
  "honest_write wr fw \<longleftrightarrow>
     (\<forall>buf w. (\<forall>w'. wr buf w \<noteq> Panic w') \<and> (\<forall>n w'. wr buf w = Ok n w' \<longrightarrow> n \<le> length buf)) \<and>
     (\<forall>w. fw w \<noteq> Hang \<and> (\<forall>w'. fw w \<noteq> Panic w'))"

lemma read_loop_not_panic:
  assumes "read_loop read n acc r = Some res"
  shows "honest_read read \<longrightarrow> (\<forall>r'. res \<noteq> Panic r')"
  using assms
proof (rule read_loop.raw_induct [where P = "\<lambda>read n acc r res.
      honest_read read \<longrightarrow> (\<forall>r'. res \<noteq> Panic r')", rotated], goal_cases)
  case (1 loop read n acc r res)
  show ?case
  proof
    assume h: "honest_read read"
    from h have "\<forall>r'. read n r \<noteq> Panic r'" "\<forall>c r'. read n r = Ok c r' \<longrightarrow> length c \<le> n"
      by (simp_all add: honest_read_def)
    with 1(2) 1(1) h show "\<forall>r'. res \<noteq> Panic r'"
      by (cases "read n r") (auto split: if_splits)
  qed
qed

lemma write_loop_not_panic:
  assumes "write_loop write buf w = Some res"
  shows "honest_write write fw \<longrightarrow> (\<forall>w'. res \<noteq> Panic w')"
  using assms
proof (rule write_loop.raw_induct [where P = "\<lambda>write buf w res.
      honest_write write fw \<longrightarrow> (\<forall>w'. res \<noteq> Panic w')", rotated], goal_cases)
  case (1 loop wr buf w res)
  show ?case
  proof
    assume h: "honest_write wr fw"
    from h have "\<forall>w'. wr buf w \<noteq> Panic w'" "\<forall>n w'. wr buf w = Ok n w' \<longrightarrow> n \<le> length buf"
      by (simp_all add: honest_write_def)
    with 1(2) 1(1) h show "\<forall>w'. res \<noteq> Panic w'"
      by (cases "wr buf w") (auto split: if_splits)
  qed
qed

lemma read_frame_of_not_panic:
  assumes "honest_read read"
  shows "read_frame_of read m r \<noteq> Panic r'"
proof -
  have "read_exact_of read n r \<noteq> Panic r'" for n r r'
    using read_loop_not_panic [of read n "[]" r] assms
    by (cases "read_loop read n [] r") (auto simp: read_exact_of_def)
  then show ?thesis by (auto simp: read_frame_of_def Let_def run_iffs split: if_splits)
qed

lemma write_frame_of_not_panic:
  assumes "honest_write wr fw"
  shows "write_frame_with_flags_of wr fw k fl pl w \<noteq> Panic w'"
proof -
  have "write_all_of wr buf w \<noteq> Panic w'" for buf w w'
    using write_loop_not_panic [of wr buf w] assms
    by (cases "write_loop wr buf w") (auto simp: write_all_of_def)
  moreover have "fw w \<noteq> Panic w'" for w w' using assms by (simp add: honest_write_def)
  ultimately show ?thesis
    by (auto simp: write_frame_with_flags_of_def Let_def run_iffs split: if_splits)
qed

section \<open>Readers and writers that lose nothing\<close>

text \<open>The contract of a reader over bytes it holds: as long as it is prepared for the request
  (\<open>ready n\<close>), it hands out the next of them, at most as many as asked for, none only at the end,
  after at most finitely many interrupted calls.\<close>

locale lossless_reader =
  fixes read :: "'r reader" and rest :: "'r \<Rightarrow> bytes" and ready :: "nat \<Rightarrow> 'r \<Rightarrow> bool"
    and tick :: "'r \<Rightarrow> nat"
  assumes read_law: "ready n r \<Longrightarrow> 0 < n \<Longrightarrow>
      (\<exists>c r'. read n r = Ok c r' \<and> length c \<le> n \<and> rest r = c @ rest r' \<and>
              (c = [] \<longrightarrow> rest r = []) \<and> ready (n - length c) r') \<or>
      (\<exists>e r'. read n r = Err e r' \<and> io_kind e = Interrupted \<and> rest r' = rest r \<and>
              ready n r' \<and> tick r' < tick r \<and> (0::nat) < tick r)"
    and ready_last: "ready n r \<Longrightarrow> length (rest r) \<le> k \<Longrightarrow> ready k r"
begin

lemma read_loop_lossless:
  "ready n r \<Longrightarrow>
   \<exists>r'. ready 0 r' \<and>
     (if n \<le> length (rest r)
      then read_loop read n acc r = Some (Ok (acc @ take n (rest r)) r') \<and> rest r' = drop n (rest r)
      else read_loop read n acc r = Some (Err eof_error r') \<and> rest r' = [])"
proof (induction n arbitrary: r acc rule: less_induct)
  case (less n)
  note shorter = less.IH
  show ?case
    using less.prems
  proof (induction "tick r" arbitrary: r rule: less_induct)
    case less
    show ?case
    proof (cases "n = 0")
      case False
      then have n: "0 < n" by simp
      from read_law [OF less.prems n] show ?thesis
      proof (elim disjE exE conjE)
        fix c r' assume c: "read n r = Ok c r'" "length c \<le> n" "rest r = c @ rest r'"
          "c = [] \<longrightarrow> rest r = []" "ready (n - length c) r'"
        show ?thesis
        proof (cases "c = []")
          case True
          with c n ready_last [of n r' 0] show ?thesis
            by (intro exI [of _ r']) (simp add: read_loop.simps)
        next
          case False
          with n c(2) have "n - length c < n" by simp
          from shorter [OF this c(5), of "acc @ c"] False c n show ?thesis
            by (auto simp: read_loop.simps [of read n acc r])
        qed
      next
        fix e r' assume e: "read n r = Err e r'" "io_kind e = Interrupted" "rest r' = rest r"
          "ready n r'" "tick r' < tick r"
        have "read_loop read n acc r = read_loop read n acc r'"
          using e n by (simp add: read_loop.simps [of read n acc r])
        with less.hyps [OF e(5,4)] show ?thesis by (simp only: e(3))
      qed
    qed (use less.prems in auto)
  qed
qed

lemma read_exact_lossless:
  assumes "ready n r"
  obtains r' where "ready 0 r'"
    "n \<le> length (rest r) \<Longrightarrow> read_exact_of read n r = Ok (take n (rest r)) r'"
    "n \<le> length (rest r) \<Longrightarrow> rest r' = drop n (rest r)"
    "length (rest r) < n \<Longrightarrow> read_exact_of read n r = Err eof_error r'"
    "length (rest r) < n \<Longrightarrow> rest r' = []"
  using read_loop_lossless [OF assms, of "[]"]
  by (cases "n \<le> length (rest r)") (auto simp: read_exact_of_def)

text \<open>Such a reader gives the reference parser's answer on the bytes it holds, provided no more
  than one frame's bytes are left behind a header (so that it is prepared for the payload).\<close>

lemma read_frame_lossless:
  assumes "ready HEADER_LEN r"
    and last: "\<And>h. header_decode (take 12 (rest r)) = Inr h \<Longrightarrow>
      length (rest r) \<le> 12 + unat (h_payload_len h)"
  shows "map_state rest (read_frame_of read m r) = parse_frame m True (rest r)"
proof -
  obtain r1 where r1: "ready 0 r1"
    "12 \<le> length (rest r) \<Longrightarrow> read_exact_of read 12 r = Ok (take 12 (rest r)) r1"
    "12 \<le> length (rest r) \<Longrightarrow> rest r1 = drop 12 (rest r)"
    "length (rest r) < 12 \<Longrightarrow> read_exact_of read 12 r = Err eof_error r1"
    "length (rest r) < 12 \<Longrightarrow> rest r1 = []"
    using read_exact_lossless [OF assms(1)] unfolding HEADER_LEN_def by metis
  show ?thesis
  proof (cases "12 \<le> length (rest r)")
    case True
    show ?thesis
    proof (cases "header_decode (take 12 (rest r))")
      case (Inr h)
      with last True r1(3) have "length (rest r1) \<le> unat (h_payload_len h)" by fastforce
      from ready_last [of 0, OF r1(1) this]
      obtain r2 where r2:
        "unat (h_payload_len h) \<le> length (rest r1) \<Longrightarrow>
         read_exact_of read (unat (h_payload_len h)) r1
         = Ok (take (unat (h_payload_len h)) (rest r1)) r2"
        "unat (h_payload_len h) \<le> length (rest r1) \<Longrightarrow>
         rest r2 = drop (unat (h_payload_len h)) (rest r1)"
        "length (rest r1) < unat (h_payload_len h) \<Longrightarrow>
         read_exact_of read (unat (h_payload_len h)) r1 = Err eof_error r2"
        "length (rest r1) < unat (h_payload_len h) \<Longrightarrow> rest r2 = []"
        using read_exact_lossless by metis
      from True Inr r1(2,3) r2 show ?thesis
        by (cases "unat (h_payload_len h) \<le> length (rest r1)")
          (auto simp: read_frame_of_def parse_frame_def Let_def short_def HEADER_LEN_def)
    qed (use True r1(2,3) in \<open>simp add: read_frame_of_def parse_frame_def HEADER_LEN_def\<close>)
  qed (use r1(4,5) in \<open>simp add: read_frame_of_def parse_frame_def short_def HEADER_LEN_def\<close>)
qed

end

text \<open>The contract of a writer that takes some of every buffer: it appends what it took.\<close>

locale lossless_writer =
  fixes wr :: "'w writer" and flush_w :: "'w \<Rightarrow> (io_error, unit, 'w) run"
    and written :: "'w \<Rightarrow> bytes" and open_for :: "'w \<Rightarrow> bool"
  assumes write_law: "open_for w \<Longrightarrow> buf \<noteq> [] \<Longrightarrow>
      \<exists>n w'. wr buf w = Ok n w' \<and> 0 < n \<and> n \<le> length buf \<and>
             written w' = written w @ take n buf \<and> open_for w'"
    and flush_law: "open_for w \<Longrightarrow> \<exists>w'. flush_w w = Ok () w' \<and> written w' = written w \<and> open_for w'"
begin

lemma write_loop_lossless:
  "open_for w \<Longrightarrow>
   \<exists>w'. write_loop wr buf w = Some (Ok () w') \<and> written w' = written w @ buf \<and> open_for w'"
proof (induction "length buf" arbitrary: buf w rule: less_induct)
  case less
  show ?case
  proof (cases "buf = []")
    case False
    obtain n w1 where w1: "wr buf w = Ok n w1" "0 < n" "n \<le> length buf"
      "written w1 = written w @ take n buf" "open_for w1"
      using write_law [OF less.prems False] by blast
    from False w1(2) have "length (drop n buf) < length buf" by simp
    from less.hyps [OF this w1(5)] w1 False show ?thesis
      by (auto simp: write_loop.simps [of wr buf w])
  qed (use less.prems in simp)
qed

lemma write_all_lossless:
  assumes "open_for w"
  obtains w' where "write_all_of wr buf w = Ok () w'" "written w' = written w @ buf" "open_for w'"
  using write_loop_lossless [OF assms, of buf] by (auto simp: write_all_of_def)

lemma write_frame_lossless:
  assumes "open_for w" "length pl < 2 ^ 32"
  shows "\<exists>w'. write_frame_with_flags_of wr flush_w k fl pl w = Ok () w' \<and>
              written w' = written w @ frame_bytes k fl pl \<and> open_for w'"
proof -
  let ?he = "header_encode \<lparr>h_kind = k, h_flags = fl, h_payload_len = of_nat (length pl)\<rparr>"
  obtain w1 where w1: "write_all_of wr ?he w = Ok () w1" "written w1 = written w @ ?he" "open_for w1"
    using write_all_lossless [OF assms(1)] .
  obtain w2 where w2: "write_all_of wr pl w1 = Ok () w2" "written w2 = written w1 @ pl" "open_for w2"
    using write_all_lossless [OF w1(3)] .
  obtain w3 where "flush_w w2 = Ok () w3" "written w3 = written w2" "open_for w3"
    using flush_law [OF w2(3)] by blast
  with w1 w2 assms(2) show ?thesis
    by (simp add: write_frame_with_flags_of_def frame_bytes_def)
qed

end

interpretation closed_stream: lossless_reader stream_read "\<lambda>s. flat (inbox s)"
  "\<lambda>n s. clean (inbox s) \<and> peer_closed s" "\<lambda>s. length (inbox s)"
proof (unfold_locales, goal_cases)
  case (1 n s)
  then show ?case
    by (cases "inbox s" rule: clean.cases)
      (auto simp: stream_read_def split: read_ev.splits)
qed auto

definition accepting :: "stream \<Rightarrow> bool" where
  "accepting s \<longleftrightarrow> (\<forall>e \<in> set (room s). \<exists>n > 0. e = Accept n) \<and> flush_result s = None"

interpretation accepting_stream: lossless_writer stream_write flush outbox accepting
proof (unfold_locales, goal_cases)
  case (1 s buf)
  then show ?case
    by (cases "room s") (auto simp: stream_write_def accepting_def min_def not_le)
next
  case (2 s)
  then show ?case by (auto simp: flush_def accepting_def)
qed

section \<open>The reader and the writer of the unit tests\<close>

record partial_reader =
  pr_data :: bytes
  pr_offset :: nat
  pr_chunk :: nat

text \<open>The copy panics when the caller's buffer is shorter than the chunk.\<close>

definition partial_read :: "partial_reader reader" where
  "partial_read n p =
     (if pr_offset p \<ge> length (pr_data p) then Ok [] p
      else
        let end = min (length (pr_data p)) (pr_offset p + pr_chunk p);
            count = end - pr_offset p in
        if n < count then Panic p
        else Ok (take count (drop (pr_offset p) (pr_data p))) (p\<lparr>pr_offset := end\<rparr>))"

record partial_writer =
  pw_data :: bytes
  pw_chunk :: nat

definition partial_write :: "partial_writer writer" where
  "partial_write buf p =
     (let count = min (length buf) (pw_chunk p) in
      Ok count (p\<lparr>pw_data := pw_data p @ take count buf\<rparr>))"

definition partial_flush :: "partial_writer \<Rightarrow> (io_error, unit, partial_writer) run" where
  "partial_flush p = Ok () p"

text \<open>The bytes a partial reader still has, and the requests it serves without panicking: multiples
  of its chunk size, or all that is left.\<close>

definition pr_rest :: "partial_reader \<Rightarrow> bytes" where
  "pr_rest p = drop (pr_offset p) (pr_data p)"

definition pr_ready :: "nat \<Rightarrow> partial_reader \<Rightarrow> bool" where
  "pr_ready n p \<longleftrightarrow> 0 < pr_chunk p \<and> (pr_chunk p dvd n \<or> length (pr_rest p) \<le> n)"

interpretation partial_in: lossless_reader partial_read pr_rest pr_ready "\<lambda>p. 0"
proof (unfold_locales, goal_cases)
  case (1 n p)
  show ?case
  proof (cases "pr_offset p \<ge> length (pr_data p)")
    case True
    with 1 show ?thesis by (auto simp: partial_read_def pr_rest_def pr_ready_def)
  next
    case False
    define count where "count = min (length (pr_rest p)) (pr_chunk p)"
    define p' where "p' = p\<lparr>pr_offset := pr_offset p + count\<rparr>"
    have c: "min (length (pr_data p)) (pr_offset p + pr_chunk p) = pr_offset p + count"
      using False by (auto simp: count_def pr_rest_def)
    have fits: "count \<le> n"
      using 1 by (auto simp: count_def pr_ready_def dest: dvd_imp_le)
    have "partial_read n p = Ok (take count (pr_rest p)) p'"
      using False fits by (simp add: partial_read_def c Let_def pr_rest_def p'_def)
    moreover have "pr_rest p = take count (pr_rest p) @ pr_rest p'"
      by (simp add: p'_def pr_rest_def add.commute flip: drop_drop)
    moreover have "take count (pr_rest p) \<noteq> []"
      using False 1 by (auto simp: count_def pr_rest_def pr_ready_def)
    moreover have "pr_ready (n - length (take count (pr_rest p))) p'"
      using 1 fits False
      by (auto simp: pr_ready_def p'_def count_def pr_rest_def min_def dvd_diff_nat)
    moreover have "length (take count (pr_rest p)) \<le> n" using fits by simp
    ultimately show ?thesis by blast
  qed
qed (auto simp: pr_ready_def)

interpretation partial_out: lossless_writer partial_write partial_flush pw_data "\<lambda>p. 0 < pw_chunk p"
proof (unfold_locales, goal_cases)
  case (1 p buf)
  then show ?case by (auto simp: partial_write_def Let_def)
qed (simp add: partial_flush_def)

text \<open>A request that is no multiple of the chunk size, with a whole chunk left behind it, panics.\<close>

lemma partial_read_loop_panics:
  "\<not> pr_chunk p dvd n \<Longrightarrow> n + pr_chunk p \<le> length (pr_rest p) \<Longrightarrow> 0 < pr_chunk p \<Longrightarrow>
   \<exists>p'. read_loop partial_read n acc p = Some (Panic p')"
proof (induction n arbitrary: p acc rule: less_induct)
  case (less n)
  have n: "0 < n" using less.prems(1) by (cases n) auto
  have off: "pr_offset p + n + pr_chunk p \<le> length (pr_data p)"
    using less.prems by (auto simp: pr_rest_def)
  show ?case
  proof (cases "n < pr_chunk p")
    case True
    with n off show ?thesis by (simp add: read_loop.simps partial_read_def)
  next
    case False
    let ?p = "p\<lparr>pr_offset := pr_offset p + pr_chunk p\<rparr>"
    have "partial_read n p = Ok (take (pr_chunk p) (pr_rest p)) ?p"
      using False off n by (simp add: partial_read_def Let_def pr_rest_def)
    moreover have "length (take (pr_chunk p) (pr_rest p)) = pr_chunk p"
      using less.prems by simp
    moreover have "take (pr_chunk p) (pr_rest p) \<noteq> []"
      using less.prems by auto
    moreover have "\<not> pr_chunk p dvd n - pr_chunk p"
      using less.prems(1) False by (simp add: dvd_diff_nat not_less)
        (metis dvd_diffD dvd_refl le_add_diff_inverse2)
    ultimately show ?thesis
      using less.IH [of "n - pr_chunk p" ?p "acc @ take (pr_chunk p) (pr_rest p)"] False n
        less.prems(2,3) off
      by (auto simp: read_loop.simps [of partial_read n acc p] pr_rest_def)
  qed
qed

section \<open>The unit tests\<close>

text \<open>A test passes when it returns; \<^verbatim>\<open>unwrap\<close> and \<^verbatim>\<open>unwrap_err\<close> panic on the other variant, a
  failed assertion panics. Its own locals are its only state.\<close>

fun unwrap_then :: "('e, 'a, 'w) run \<Rightarrow> ('a \<Rightarrow> 'w \<Rightarrow> (error, unit, unit) run)
    \<Rightarrow> (error, unit, unit) run" where
  "unwrap_then (Ok x w) f = f x w"
| "unwrap_then (Err e w) f = Panic ()"
| "unwrap_then (Panic w) f = Panic ()"
| "unwrap_then Hang f = Hang"

definition assert_then :: "bool \<Rightarrow> (error, unit, unit) run \<Rightarrow> (error, unit, unit) run" where
  "assert_then b m = (if b then m else Panic ())"

definition frame_round_trips_with_partial_io :: "(error, unit, unit) run" where
  "frame_round_trips_with_partial_io =
     unwrap_then (write_frame_of partial_write partial_flush KRequest (s2b ''hello world'')
       \<lparr>pw_data = [], pw_chunk = 3\<rparr>) (\<lambda>_ writer.
     unwrap_then (read_frame_of partial_read DEFAULT_MAX_PAYLOAD_LEN
       \<lparr>pr_data = pw_data writer, pr_offset = 0, pr_chunk = 2\<rparr>) (\<lambda>frame _.
     assert_then (kind frame = KRequest)
     (assert_then (flags frame = 0)
     (assert_then (payload frame = s2b ''hello world'')
     (Ok () ())))))"

definition rejects_invalid_magic :: "(error, unit, unit) run" where
  "rejects_invalid_magic =
     (let bytes = u32_to_be 0x12345678 @ drop 4 (replicate HEADER_LEN 0);
          bytes = bytes[4 := VERSION];
          bytes = bytes[5 := kind_u8 KPing] in
      case header_decode bytes of
        Inr _ \<Rightarrow> Panic ()
      | Inl err \<Rightarrow> assert_then (err = InvalidFrameMagic 0x12345678) (Ok () ()))"

lemma rejects_invalid_magic_passes: "rejects_invalid_magic = Ok () ()"
proof -
  have "length (u32_to_be 0x12345678) = 4" by simp
  then have "take 4 ((u32_to_be 0x12345678 @ drop 4 (replicate HEADER_LEN 0))[4 := v, 5 := k])
      = u32_to_be 0x12345678" for v k
    by (simp add: HEADER_LEN_def)
  then show ?thesis
    by (simp add: rejects_invalid_magic_def header_decode_def Let_def assert_then_def MAGIC_def)
qed

section \<open>Properties\<close>



text \<open>The reads and writes of theory Frame are the standard library's loops: run on single reads
  and writes of an event stream, the loops do exactly what \<^verbatim>\<open>read_exact\<close> and \<^verbatim>\<open>write_all\<close> of the
  model do, so the generic frame functions are the model's.\<close>

theorem stream_loops_agree:
  "read_frame_of stream_read m s = read_frame m s \<and>
   write_frame_with_flags_of stream_write flush k fl pl s = write_frame_with_flags k fl pl s"
  by (simp add: read_frame_of_def read_frame_def read_exact_of_stream
      write_frame_with_flags_of_def write_frame_with_flags_def write_all_of_stream Let_def
      cong: if_cong)



end
