(* ===== verification/Claim_Race.thy ===== *)
theory Claim_Race imports Pidfile begin

text \<open>
  Several processes claiming the same PID file at once. \<open>Pidfile\<close> has \<^verbatim>\<open>PidGuard::claim\<close> as
  one function, in which others interfere through the world's events; here its loop is cut into
  single system calls, so that any number of claimers run the same code interleaved. The cut is
  shown to be the function again when one claimer runs alone.
\<close>

section \<open>One claimer, one system call at a time\<close>

text \<open>Where a claimer stands: before the call named, with the number of attempts left after the
  present one, or at the end.\<close>

datatype claim_pc =
    AtExists nat | AtRead nat | AtKill nat u32 | AtRemove nat | AtCreate nat
  | AtWrite nat | AtNewline nat | AtLast
  | Claimed pid_guard | Refused error | Crashed | Stuck

fun advance ::
  "('a \<Rightarrow> claim_pc) \<Rightarrow> ('e \<Rightarrow> claim_pc) \<Rightarrow> world \<Rightarrow> ('e, 'a, world) run \<Rightarrow> claim_pc \<times> world" where
  "advance f g w (Ok x v) = (f x, v)"
| "advance f g w (Err e v) = (g e, v)"
| "advance f g w (Panic v) = (Crashed, v)"
| "advance f g w Hang = (Stuck, w)"

definition start_pc :: "nat \<Rightarrow> claim_pc" where
  "start_pc n = (case n of 0 \<Rightarrow> AtLast | Suc m \<Rightarrow> AtExists m)"

fun claim_step :: "libc \<Rightarrow> path \<Rightarrow> claim_pc \<Rightarrow> world \<Rightarrow> claim_pc \<times> world" where
  "claim_step L path (AtExists n) w =
     advance (\<lambda>exists. if exists then AtRead n else AtCreate n) Refused w (path_exists path w)"
| "claim_step L path (AtRead n) w =
     advance (\<lambda>found. case found of Some pid \<Rightarrow> AtKill n pid | None \<Rightarrow> AtRemove n) Refused w
       (read_pid path w)"
| "claim_step L path (AtKill n pid) w =
     advance
       (\<lambda>alive. if alive then Refused (DaemonAlreadyRunning (Some pid) None) else AtRemove n)
       Refused w (is_process_alive L pid w)"
| "claim_step L path (AtRemove n) w =
     advance (\<lambda>_. AtCreate n) Refused w (remove_if_exists path w)"
| "claim_step L path (AtCreate n) w =
     advance AtWrite
       (\<lambda>err. if io_kind err = AlreadyExists then start_pc n else Refused (Io err)) w
       (create_new path w)"
| "claim_step L path (AtWrite file) w =
     advance (\<lambda>_. AtNewline file) (\<lambda>err. Refused (Io err)) w
       (write_handle path file (show_nat (unat (pid_self w))) w)"
| "claim_step L path (AtNewline file) w =
     advance (\<lambda>_. Claimed \<lparr>guard_path = path\<rparr>) (\<lambda>err. Refused (Io err)) w
       (write_handle path file [10] w)"
| "claim_step L path AtLast w =
     advance (\<lambda>pid. Refused (DaemonAlreadyRunning pid None)) Refused w (read_pid path w)"
| "claim_step L path (Claimed g) w = (Claimed g, w)"
| "claim_step L path (Refused e) w = (Refused e, w)"
| "claim_step L path Crashed w = (Crashed, w)"
| "claim_step L path Stuck w = (Stuck, w)"

fun outcome :: "claim_pc \<times> world \<Rightarrow> (pid_guard, world) result" where
  "outcome (Claimed g, w) = Ok g w"
| "outcome (Refused e, w) = Err e w"
| "outcome (Crashed, w) = Panic w"
| "outcome (_, w) = Hang"

text \<open>How many calls a claimer has left at most.\<close>

fun rank :: "claim_pc \<Rightarrow> nat" where
  "rank (AtExists n) = 5 * n + 7"
| "rank (AtRead n) = 5 * n + 6"
| "rank (AtKill n pid) = 5 * n + 5"
| "rank (AtRemove n) = 5 * n + 4"
| "rank (AtCreate n) = 5 * n + 3"
| "rank (AtWrite file) = 2"
| "rank (AtNewline file) = 1"
| "rank AtLast = 1"
| "rank _ = 0"

lemma rank_start: "rank (start_pc n) \<le> 5 * n + 2"
  by (cases n) (simp_all add: start_pc_def)

lemma rank_advance:
  assumes "\<And>x. rank (f x) \<le> k" "\<And>e. rank (g e) \<le> k"
  shows "rank (fst (advance f g w r)) \<le> k"
  using assms by (cases r) simp_all

lemma rank_advance_0:
  assumes "\<And>x. rank (f x) = 0" "\<And>e. rank (g e) = 0"
  shows "rank (fst (advance f g w r)) = 0"
  using rank_advance [of f 0 g w r] assms by simp

lemma rank_step: "rank (fst (claim_step L path pc w)) \<le> rank pc - 1"
  using rank_start
  by (cases pc) (auto intro!: rank_advance rank_advance_0 split: option.split)

text \<open>What a claimer at a given place still has to do, as a function of the world.\<close>

definition create_part :: "libc \<Rightarrow> path \<Rightarrow> nat \<Rightarrow> world \<Rightarrow> (pid_guard, world) result" where
  "create_part L path n w =
     (case create_new path w of
        Ok file w \<Rightarrow> write_pid path file w
      | Err err w \<Rightarrow>
          if io_kind err = AlreadyExists then claim_attempts n L path w else Err (Io err) w
      | Panic w \<Rightarrow> Panic w
      | Hang \<Rightarrow> Hang)"

fun resume :: "libc \<Rightarrow> path \<Rightarrow> claim_pc \<Rightarrow> world \<Rightarrow> (pid_guard, world) result" where
  "resume L path (AtExists n) w = claim_attempts (Suc n) L path w"
| "resume L path (AtRead n) w =
     and_then (read_pid path w) (\<lambda>found w.
       case found of
         Some pid \<Rightarrow>
           and_then (is_process_alive L pid w) (\<lambda>alive w.
             if alive then Err (DaemonAlreadyRunning (Some pid) None) w
             else and_then (remove_if_exists path w) (\<lambda>_. create_part L path n))
       | None \<Rightarrow> and_then (remove_if_exists path w) (\<lambda>_. create_part L path n))"
| "resume L path (AtKill n pid) w =
     and_then (is_process_alive L pid w) (\<lambda>alive w.
       if alive then Err (DaemonAlreadyRunning (Some pid) None) w
       else and_then (remove_if_exists path w) (\<lambda>_. create_part L path n))"
| "resume L path (AtRemove n) w = and_then (remove_if_exists path w) (\<lambda>_. create_part L path n)"
| "resume L path (AtCreate n) w = create_part L path n w"
| "resume L path (AtWrite file) w = write_pid path file w"
| "resume L path (AtNewline file) w =
     and_then (map_err Io (write_handle path file [10] w)) (\<lambda>_ w. Ok \<lparr>guard_path = path\<rparr> w)"
| "resume L path AtLast w = claim_attempts 0 L path w"
| "resume L path pc w = outcome (pc, w)"

lemma resume_start: "resume L path (start_pc n) w = claim_attempts n L path w"
  by (cases n) (simp_all add: start_pc_def)

lemma and_then_case_option:
  "and_then (case x of None \<Rightarrow> a | Some y \<Rightarrow> b y) f
     = (case x of None \<Rightarrow> and_then a f | Some y \<Rightarrow> and_then (b y) f)"
  by (cases x) simp_all

lemma and_then_if: "and_then (if b then x else y) f = (if b then and_then x f else and_then y f)"
  by simp

lemma resume_exists:
  "resume L path (AtExists n) w =
     and_then (path_exists path w) (\<lambda>exists. if exists then resume L path (AtRead n)
       else create_part L path n)"
proof -
  have "(\<lambda>exists w. and_then (if exists then
          and_then (read_pid path w) (\<lambda>found w.
            case found of
              Some pid \<Rightarrow>
                and_then (is_process_alive L pid w) (\<lambda>alive w.
                  if alive then Err (DaemonAlreadyRunning (Some pid) None) w
                  else remove_if_exists path w)
            | None \<Rightarrow> remove_if_exists path w)
        else Ok () w) (\<lambda>_ w. create_part L path n w))
      = (\<lambda>exists. if exists then resume L path (AtRead n) else create_part L path n)"
    by (intro ext)
      (auto simp: and_then_assoc and_then_case_option and_then_if
        intro!: ext arg_cong [where f = "and_then _"] split: option.split)
  then show ?thesis by (simp add: claim_attempt_unfold create_part_def)
qed

lemma resume_step:
  "resume L path pc w = (case claim_step L path pc w of (pc1, v) \<Rightarrow> resume L path pc1 v)"
proof (cases pc)
  case (AtExists n)
  then show ?thesis
    by (cases "path_exists path w :: (bool, world) result")
      (simp_all add: resume_exists del: resume.simps(1))
next
  case (AtRead n)
  then show ?thesis by (cases "read_pid path w") (auto split: option.split)
next
  case (AtKill n pid)
  then show ?thesis by (cases "is_process_alive L pid w :: (bool, world) result") auto
next
  case (AtRemove n)
  then show ?thesis by (cases "remove_if_exists path w") auto
next
  case (AtCreate n)
  then show ?thesis by (cases "create_new path w") (auto simp: create_part_def resume_start)
next
  case (AtWrite ino)
  then show ?thesis
    by (cases "write_handle path ino (show_nat (unat (pid_self w))) w") (auto simp: write_pid_def)
next
  case (AtNewline ino)
  then show ?thesis by (cases "write_handle path ino [10] w") auto
next
  case AtLast
  then show ?thesis by (cases "read_pid path w") (auto simp: claim_attempts.simps)
qed auto

definition claim_alone :: "libc \<Rightarrow> path \<Rightarrow> claim_pc \<times> world \<Rightarrow> claim_pc \<times> world" where
  "claim_alone L path = (\<lambda>(pc, w). claim_step L path pc w)"

lemma resume_finished: "rank pc = 0 \<Longrightarrow> resume L path pc w = outcome (pc, w)"
  by (cases pc) auto

lemma claim_alone_resume:
  "rank pc \<le> k \<Longrightarrow> outcome ((claim_alone L path ^^ k) (pc, w)) = resume L path pc w"
proof (induction k arbitrary: pc w)
  case 0
  then show ?case by (simp add: resume_finished)
next
  case (Suc k)
  obtain pc1 v where s: "claim_step L path pc w = (pc1, v)" by fastforce
  have "rank pc1 \<le> k" using rank_step [of L path pc w] s Suc.prems by simp
  with Suc.IH [of pc1 v] s resume_step [of L path pc w] show ?case
    by (simp add: funpow_Suc_right claim_alone_def del: funpow.simps(2))
qed


section \<open>Many claimers\<close>

text \<open>The claimers, each with its PID and its place, share the world; a step is one system call of one
  claimer that is not finished.\<close>

type_synonym race = "(u32 \<times> claim_pc) list \<times> world"

inductive race_step :: "libc \<Rightarrow> path \<Rightarrow> race \<Rightarrow> race \<Rightarrow> bool" for L path where
  call: "i < length cs \<Longrightarrow> cs ! i = (pid, pc) \<Longrightarrow> 0 < rank pc \<Longrightarrow>
         claim_step L path pc (w\<lparr>pid_self := pid\<rparr>) = (pc1, v) \<Longrightarrow>
         race_step L path (cs, w) (cs[i := (pid, pc1)], v)"

inductive_cases race_stepE: "race_step L path (cs, w) (ds, v)"

definition claimers :: "u32 list \<Rightarrow> (u32 \<times> claim_pc) list" where
  "claimers pids = map (\<lambda>pid. (pid, start_pc 3)) pids"

fun is_claimed :: "claim_pc \<Rightarrow> bool" where
  "is_claimed (Claimed g) = True"
| "is_claimed _ = False"

definition owners :: "(u32 \<times> claim_pc) list \<Rightarrow> nat" where
  "owners cs = length (filter (\<lambda>(pid, pc). is_claimed pc) cs)"

definition creates :: "path \<Rightarrow> world \<Rightarrow> nat" where
  "creates path w = length (filter ((=) (ACreate path)) (trace w))"

definition unlinks :: "path \<Rightarrow> world \<Rightarrow> nat" where
  "unlinks path w = length (filter ((=) (AUnlink path)) (trace w))"

definition present :: "path \<Rightarrow> world \<Rightarrow> nat" where
  "present path w = (if fs w path = None then 0 else 1)"

text \<open>A claimer that created the file and has not failed since.\<close>

fun holds :: "claim_pc \<Rightarrow> nat" where
  "holds (AtWrite ino) = 1"
| "holds (AtNewline ino) = 1"
| "holds (Claimed g) = 1"
| "holds _ = 0"

lemma holds_start [simp]: "holds (start_pc n) = 0"
  by (simp add: start_pc_def split: nat.split)

lemmas claim_calls =
  path_exists_def read_pid_def read_to_string_def is_process_alive_def remove_if_exists_def
  remove_file_def create_new_def write_handle_def syscall_def enter_idle Let_def

text \<open>One call moves a claimer into the holders exactly when it creates the file, and the file is
  there exactly when it was created more often than removed.\<close>

definition balanced :: "path \<Rightarrow> claim_pc \<times> world \<Rightarrow> claim_pc \<times> world \<Rightarrow> bool" where
  "balanced path = (\<lambda>(pc, w) (pc1, v).
     sched v = [] \<and> creates path v + holds pc = creates path w + holds pc1 \<and>
     creates path v + unlinks path w + present path w
       = creates path w + unlinks path v + present path v)"

lemma claim_step_balanced:
  assumes "sched w = []"
  shows "balanced path (pc, w) (claim_step L path pc w)"
  using assms
  by (cases pc)
    (auto simp: claim_calls balanced_def creates_def unlinks_def present_def record_action_def
      entry_error_def split: option.splits sum.splits node.splits if_splits)

definition holders :: "(u32 \<times> claim_pc) list \<Rightarrow> nat" where
  "holders cs = sum_list (map (\<lambda>(pid, pc). holds pc) cs)"

definition calls_left :: "(u32 \<times> claim_pc) list \<Rightarrow> nat" where
  "calls_left cs = sum_list (map (\<lambda>(pid, pc). rank pc) cs)"

lemma sum_list_exchange:
  assumes "i < length xs"
  shows "sum_list (map f (xs[i := x])) + f (xs ! i) = sum_list (map f xs) + (f x :: nat)"
proof -
  have "f (xs ! i) \<le> sum_list (map f xs)"
    using assms by (intro member_le_sum_list) auto
  with assms show ?thesis by (simp add: map_update sum_list_update)
qed

lemma owners_le_holders: "owners cs \<le> holders cs"
proof (induction cs)
  case (Cons c cs)
  then show ?case by (cases c; cases "snd c") (auto simp: owners_def holders_def)
qed (simp add: owners_def)

lemma race_step_laws:
  assumes "race_step L path (cs, w) (ds, v)" "sched w = []"
  shows "sched v = [] \<and> creates path v + holders cs = creates path w + holders ds \<and>
         creates path v + unlinks path w + present path w
           = creates path w + unlinks path v + present path v \<and>
         calls_left ds < calls_left cs"
proof -
  from assms(1) obtain i pid pc pc1 where s: "i < length cs" "cs ! i = (pid, pc)" "0 < rank pc"
    "claim_step L path pc (w\<lparr>pid_self := pid\<rparr>) = (pc1, v)" "ds = cs[i := (pid, pc1)]"
    by (elim race_stepE) blast
  have b: "balanced path (pc, w\<lparr>pid_self := pid\<rparr>) (pc1, v)"
    using claim_step_balanced [of "w\<lparr>pid_self := pid\<rparr>" path pc L] assms(2) s(4) by simp
  have "rank pc1 < rank pc"
    using rank_step [of L path pc "w\<lparr>pid_self := pid\<rparr>"] s(3,4) by simp
  moreover have "holders ds + holds pc = holders cs + holds pc1"
    "calls_left ds + rank pc = calls_left cs + rank pc1"
    using sum_list_exchange [OF s(1), of "\<lambda>(pid, pc). holds pc" "(pid, pc1)"]
      sum_list_exchange [OF s(1), of "\<lambda>(pid, pc). rank pc" "(pid, pc1)"] s(2,5)
    by (simp_all add: holders_def calls_left_def)
  moreover have "sched v = []" "creates path v + holds pc = creates path w + holds pc1"
    "creates path v + unlinks path w + present path w
       = creates path w + unlinks path v + present path v"
    using b by (simp_all add: balanced_def creates_def unlinks_def present_def)
  ultimately show ?thesis by linarith
qed

lemma race_laws:
  assumes "((race_step L path) ^^ k) (cs, w) (ds, v)" "sched w = []"
  shows "sched v = [] \<and> creates path v + holders cs = creates path w + holders ds \<and>
         creates path v + unlinks path w + present path w
           = creates path w + unlinks path v + present path v \<and>
         calls_left ds + k \<le> calls_left cs"
  using assms
proof (induction k arbitrary: ds v)
  case (Suc k)
  then obtain es u where "((race_step L path) ^^ k) (cs, w) (es, u)" "race_step L path (es, u) (ds, v)"
    by auto
  with Suc.IH [of es u] race_step_laws [of L path es u ds v] Suc.prems(2) show ?case by fastforce
qed simp

lemma claimers_start: "holders (claimers pids) = 0" "calls_left (claimers pids) = 17 * length pids"
  by (induction pids) (simp_all add: claimers_def holders_def calls_left_def start_pc_def)

text \<open>C23: Any number of processes that claim the same PID file at once, interleaved in any way, finish
  after at most seventeen calls each, and what keeps them apart is the exclusive creation of the
  file: there are never more successful claims than removals of the file plus one, and one less if
  the file was there at first. So as long as no claimer removes the file at most one succeeds, and
  none if the file existed.\<close>

theorem race_owners_bounded:
  assumes "sched w = []" "((race_step L path) ^^ k) (claimers pids, w) (ds, v)"
  shows "k \<le> 17 * length pids \<and>
         owners ds + present path w + unlinks path w \<le> unlinks path v + 1"
proof -
  have "present path v \<le> 1" by (simp add: present_def)
  with race_laws [OF assms(2,1)] claimers_start [of pids] owners_le_holders [of ds]
  show ?thesis by linarith
qed

section \<open>Two owners\<close>

text \<open>Carrying out a given interleaving.\<close>

fun run_schedule :: "libc \<Rightarrow> path \<Rightarrow> nat list \<Rightarrow> race \<Rightarrow> race" where
  "run_schedule L path [] cw = cw"
| "run_schedule L path (i # order) (cs, w) =
     (let (pid, pc) = cs ! i;
          (pc1, v) = claim_step L path pc (w\<lparr>pid_self := pid\<rparr>) in
      run_schedule L path order (cs[i := (pid, pc1)], v))"

text \<open>No step of the schedule asks a finished claimer.\<close>

fun good_schedule :: "libc \<Rightarrow> path \<Rightarrow> nat list \<Rightarrow> race \<Rightarrow> bool" where
  "good_schedule L path [] cw = True"
| "good_schedule L path (i # order) (cs, w) =
     (i < length cs \<and> 0 < rank (snd (cs ! i)) \<and>
      good_schedule L path order (run_schedule L path [i] (cs, w)))"

lemma run_schedule_steps:
  "good_schedule L path order cw \<Longrightarrow> ((race_step L path) ^^ length order) cw (run_schedule L path order cw)"
proof (induction order arbitrary: cw)
  case (Cons i order)
  obtain cs w where cw: "cw = (cs, w)" by fastforce
  obtain pid pc where c: "cs ! i = (pid, pc)" by fastforce
  obtain pc1 v where s: "claim_step L path pc (w\<lparr>pid_self := pid\<rparr>) = (pc1, v)" by fastforce
  have "race_step L path cw (cs[i := (pid, pc1)], v)"
    using Cons.prems c s unfolding cw by (intro race_step.call) auto
  moreover have "good_schedule L path order (cs[i := (pid, pc1)], v)"
    using Cons.prems c s by (simp add: cw)
  ultimately have "((race_step L path) ^^ Suc (length order)) cw (run_schedule L path order (cs[i := (pid, pc1)], v))"
    using Cons.IH relpowp_Suc_I2 by metis
  then show ?case using c s by (simp add: cw del: relpowp.simps)
qed simp

definition race_libc :: libc where "race_libc = model_libc (\<lambda>q. q = 42 \<or> q = 43)"

lemma race_alive: "pid_alive race_libc q v \<longleftrightarrow> q = 0 \<or> q = 42 \<or> q = 43"
  by (simp add: race_libc_def model_alive)

definition free_world :: world where "free_world = base_world [[s2b ''tmp''] \<mapsto> Dir]"

lemma demo_paths_differ [simp]: "demo_pid_path \<noteq> []" "butlast demo_pid_path = [s2b ''tmp'']"
  "demo_pid_path \<noteq> [s2b ''tmp'']"
  by (simp_all add: demo_pid_path_def)

lemmas race_eval =
  claim_calls claim_alone_def start_pc_def claimers_def race_alive entry_error_def dir_at_def
  lookup_plain lookup_missing record_action_def parse_pid_line

lemma free_race:
  "good_schedule race_libc demo_pid_path [0, 0, 1, 1, 1, 1, 1, 1, 0, 0] (claimers [42, 43], free_world) \<and>
   (\<exists>v. run_schedule race_libc demo_pid_path [0, 0, 1, 1, 1, 1, 1, 1, 0, 0] (claimers [42, 43], free_world)
     = ([(42, Claimed \<lparr>guard_path = demo_pid_path\<rparr>), (43, Claimed \<lparr>guard_path = demo_pid_path\<rparr>)], v) \<and>
        fs v demo_pid_path = Some (File 8 (pid_line 43)))"
  by (simp add: race_eval free_world_def trim_def trim_start.simps trim_end.simps leading_ws_def
      trailing_ws_def ws_chars_def parse_u32_def pid_line_def)

lemma stale_race:
  "good_schedule race_libc demo_pid_path [0, 0, 0, 1, 1, 1, 1, 1, 1, 1, 0, 0, 0, 0]
     (claimers [42, 43], demo_pid_world (pid_line 99)) \<and>
   (\<exists>v. run_schedule race_libc demo_pid_path [0, 0, 0, 1, 1, 1, 1, 1, 1, 1, 0, 0, 0, 0]
       (claimers [42, 43], demo_pid_world (pid_line 99))
     = ([(42, Claimed \<lparr>guard_path = demo_pid_path\<rparr>), (43, Claimed \<lparr>guard_path = demo_pid_path\<rparr>)], v) \<and>
        fs v demo_pid_path = Some (File 8 (pid_line 42)))"
proof -
  have "pid_line 42 = show_nat 42 @ [10]" "pid_line 43 = show_nat 43 @ [10]"
    by (simp_all add: pid_line_def)
  then show ?thesis by (simp add: race_eval demo_pid_world_def)
qed

text \<open>C24: The PID file does not keep two claimers apart: there are interleavings in which two processes,
  both alive, both finish their claim successfully. On a free path the second finds the first one's
  file between its creation and the writing of the PID, reads nothing from it and removes it. On a
  stale file both find the old owner dead, and the slower one removes the file the faster one has
  already made its own. Either way one process believes to own a file that names the other.\<close>

theorem two_claims_can_succeed:
  "(\<exists>k v. ((race_step race_libc demo_pid_path) ^^ k) (claimers [42, 43], free_world)
       ([(42, Claimed \<lparr>guard_path = demo_pid_path\<rparr>), (43, Claimed \<lparr>guard_path = demo_pid_path\<rparr>)], v) \<and>
     fs v demo_pid_path = Some (File 8 (pid_line 43))) \<and>
   (\<exists>k v. ((race_step race_libc demo_pid_path) ^^ k)
       (claimers [42, 43], demo_pid_world (pid_line 99))
       ([(42, Claimed \<lparr>guard_path = demo_pid_path\<rparr>), (43, Claimed \<lparr>guard_path = demo_pid_path\<rparr>)], v) \<and>
     fs v demo_pid_path = Some (File 8 (pid_line 42))) \<and>
   (\<forall>v. pid_alive race_libc 42 v \<and> pid_alive race_libc 43 v \<and> \<not> pid_alive race_libc 99 v)"
proof (intro conjI allI)
  show "\<exists>k v. ((race_step race_libc demo_pid_path) ^^ k) (claimers [42, 43], free_world)
       ([(42, Claimed \<lparr>guard_path = demo_pid_path\<rparr>), (43, Claimed \<lparr>guard_path = demo_pid_path\<rparr>)], v) \<and>
     fs v demo_pid_path = Some (File 8 (pid_line 43))"
    using free_race run_schedule_steps by metis
  show "\<exists>k v. ((race_step race_libc demo_pid_path) ^^ k)
       (claimers [42, 43], demo_pid_world (pid_line 99))
       ([(42, Claimed \<lparr>guard_path = demo_pid_path\<rparr>), (43, Claimed \<lparr>guard_path = demo_pid_path\<rparr>)], v) \<and>
     fs v demo_pid_path = Some (File 8 (pid_line 42))"
    using stale_race run_schedule_steps by metis
qed (simp_all add: race_alive)

theorem race_owners_bounded_witness:
  "\<exists>v. ((race_step race_libc demo_pid_path) ^^ 10) (claimers [42, 43], free_world)
       ([(42, Claimed \<lparr>guard_path = demo_pid_path\<rparr>), (43, Claimed \<lparr>guard_path = demo_pid_path\<rparr>)], v) \<and>
     (10 :: nat) \<le> 17 * length [42 :: u32, 43] \<and> 2 \<le> unlinks demo_pid_path v + 1"
proof -
  let ?g = "\<lparr>guard_path = demo_pid_path\<rparr>"
  obtain v where "((race_step race_libc demo_pid_path) ^^ length [0, 0, 1, 1, 1, 1, 1, 1, 0, 0 :: nat])
      (claimers [42, 43], free_world) ([(42, Claimed ?g), (43, Claimed ?g)], v)"
    using free_race run_schedule_steps by metis
  then have r: "((race_step race_libc demo_pid_path) ^^ 10) (claimers [42, 43], free_world)
      ([(42, Claimed ?g), (43, Claimed ?g)], v)"
    by (simp only: list.size) (simp add: numeral_eq_Suc del: relpowp.simps)
  have "sched free_world = []" by (simp add: free_world_def)
  from race_owners_bounded [OF this r] r show ?thesis
    by (auto simp: owners_def simp del: relpowp.simps)
qed

end
