(* ===== verification/Run_Queue.thy ===== *)
theory Run_Queue imports End_To_End begin

text \<open>
  A whole run as a function of the connections: \<open>serve_all\<close> computes, from the handler alone, what a
  daemon makes of the queue it finds, and the run of \<^verbatim>\<open>src/daemon.rs\<close> does exactly that between its
  start and its clean-up. With the two ends of each connection joined, every client of the run gets
  the answer of the handler in the state its predecessors left.
\<close>

section \<open>The reference: handle one connection after the other\<close>

text \<open>The result of the loop, the application's last state, the handled streams and the connections
  left waiting; \<open>None\<close> when the queue is used up and nothing told the loop to end, or when a
  connection blocks.\<close>

fun serve_all :: "'s daemon \<Rightarrow> 's \<Rightarrow> stream list \<Rightarrow>
    ((error + unit) \<times> 's \<times> stream list \<times> stream list) option" where
  "serve_all d st [] = None"
| "serve_all d st (s # ss) =
     (case process_connection d s st of
        Ok out (st1, s1) \<Rightarrow>
          (case out of
             StopDaemon \<Rightarrow> Some (Inr (), st1, [s1], ss)
           | Continue \<Rightarrow>
               (case serve_all d st1 ss of
                  None \<Rightarrow> None
                | Some (r, st2, handled, rest) \<Rightarrow> Some (r, st2, s1 # handled, rest)))
      | Err e (st1, s1) \<Rightarrow> Some (Inl e, st1, [s1], ss)
      | _ \<Rightarrow> None)"

section \<open>The loops in a world without events\<close>

lemma still_calls:
  assumes "sched w = []"
  shows "accept w = (case backlog w of [] \<Rightarrow> Err (os_error WouldBlock) w
                     | s # bl \<Rightarrow> Ok s (w\<lparr>backlog := bl\<rparr>))"
    and "set_nonblocking w = Ok () w"
  using assms by (auto simp: accept_def set_nonblocking_def syscall_def enter_idle split: list.split)

lemma accept_loop_serves:
  assumes "sched w = []" "serve_all d st (backlog w) = Some (r, st1, handled, rest)"
  shows "\<exists>t1. accept_loop d t st w = Some (case r of
      Inr _ \<Rightarrow> Ok (StopDaemon, t1) (st1, w\<lparr>backlog := rest, served := served w @ handled\<rparr>)
    | Inl e \<Rightarrow> Err e (st1, w\<lparr>backlog := rest, served := served w @ handled\<rparr>))"
  using assms
proof (induction "backlog w" arbitrary: w st t handled)
  case (Cons s ss)
  note bl = Cons.hyps(2) [symmetric]
  let ?w = "w\<lparr>backlog := ss\<rparr>"
  note acc = still_calls [OF Cons.prems(1)] still_calls(2) [of ?w] Cons.prems(1)
  show ?case
  proof (cases "process_connection d s st")
    case (Ok out sw)
    obtain st2 s1 where sw: "sw = (st2, s1)" by (cases sw)
    show ?thesis
    proof (cases out)
      case Continue
      with Ok sw bl Cons.prems(2) obtain more where more: "handled = s1 # more"
        "serve_all d st2 ss = Some (r, st1, more, rest)"
        by (auto split: option.splits prod.splits)
      let ?v = "close_stream s1 ?w"
      have v: "backlog ?v = ss" "sched ?v = []" using Cons.prems(1) by (simp_all add: close_stream_def)
      from Cons.hyps(1) [OF v(1) [symmetric] v(2), of st2 more "clock w"] more(2) v(1) obtain t1 where
        "accept_loop d (clock w) st2 ?v = Some (case r of
           Inr _ \<Rightarrow> Ok (StopDaemon, t1) (st1, ?v\<lparr>backlog := rest, served := served ?v @ more\<rparr>)
         | Inl e \<Rightarrow> Err e (st1, ?v\<lparr>backlog := rest, served := served ?v @ more\<rparr>))"
        by auto
      with Ok sw Continue acc bl more(1) show ?thesis
        by (subst accept_loop.simps) (auto simp: enter_idle close_stream_def split: sum.split)
    next
      case StopDaemon
      with Ok sw acc bl Cons.prems(2) show ?thesis
        by (subst accept_loop.simps) (auto simp: enter_idle close_stream_def)
    qed
  next
    case (Err e sw)
    obtain st2 s1 where sw: "sw = (st2, s1)" by (cases sw)
    with Err acc bl Cons.prems(2) show ?thesis
      by (subst accept_loop.simps) (auto simp: enter_idle close_stream_def)
  qed (use bl Cons.prems(2) in auto)
qed (use assms in simp)

lemma env_step_still:
  assumes "sched w = []" "env_step w v"
  obtains t where "v = w\<lparr>clock := t\<rparr>"
proof -
  have "((\<lambda>u. snd (enter u)) ^^ n) w = w" for n
    using assms(1) by (induction n) (simp_all add: enter_idle)
  with assms(2) that show thesis by (auto simp: env_step_def)
qed

lemma run_event_loop_serves:
  assumes "poll_contract L" "sched w = []" "\<not> signalled w" "0 < idle_timeout (config d)"
    and "serve_all d st (backlog w) = Some (r, st1, handled, rest)"
  shows "\<exists>v. run_event_loop d L st w = (case r of Inr _ \<Rightarrow> Ok () (st1, v) | Inl e \<Rightarrow> Err e (st1, v)) \<and>
             backlog v = rest \<and> sched v = [] \<and> served v = served w @ handled"
proof -
  let ?x = "wait_time d (clock w) w"
  have bl: "backlog w \<noteq> []" using assms(5) by (cases "backlog w") auto
  obtain rc revents err u where p: "poll1 L (poll_timeout_ms ?x) w = (rc, revents, err, u)"
    by (metis prod_cases4)
  have ready: "poll_ready (rc, revents, err, u)"
    using poll_contract.poll_reports [OF assms(1) bl] p by metis
  then have pl: "poll_listener L ?x w = Ok True u"
    using p by (simp add: poll_listener_def poll_ready_def)
  obtain t where u: "u = w\<lparr>clock := t\<rparr>"
    using env_step_still [OF assms(2) poll_contract.poll_env [OF assms(1) p]] .
  with assms(2,5) have "sched u = []" "serve_all d st (backlog u) = Some (r, st1, handled, rest)"
    by simp_all
  from accept_loop_serves [OF this, of "clock w"] obtain t1 where
    "accept_loop d (clock w) st u = Some (case r of
      Inr _ \<Rightarrow> Ok (StopDaemon, t1) (st1, u\<lparr>backlog := rest, served := served u @ handled\<rparr>)
    | Inl e \<Rightarrow> Err e (st1, u\<lparr>backlog := rest, served := served u @ handled\<rparr>))" by blast
  with assms(2-4) pl u show ?thesis
    by (intro exI [of _ "u\<lparr>backlog := rest, served := served u @ handled\<rparr>"])
      (auto simp: run_event_loop_def enter_idle event_loop.simps [of d L "clock w" st w] Let_def
        split: sum.split)
qed

lemma run_queue_final:
  assumes "own_paths P p (socket_path (config d)) w" "pid_file (config d) = Some p"
    and "\<And>q v. pid_alive L q v = alive q" "\<And>sig v. register_signal L sig v = Inr ()"
    and "claim_decision alive (file_content (fs w p)) \<in> {Take, Replace}"
    and "bind_decision (fs w (socket_path (config d))) \<in> {BindFresh, BindReplace}"
    and "poll_contract L" "on_start d = Inr st" "sched w = []" "0 < idle_timeout (config d)"
    and "serve_all d st (backlog w) = Some (r, st1, handled, rest)"
  shows "\<exists>v. run d L w = lift_result (in_order [r, stop_result d st1]) v \<and>
             served v = served w @ handled \<and> pending v = rest \<and>
             gone P p (socket_path (config d)) w v"
proof -
  from run_calm_transcript [OF assms(1-8)] assms(9) obtain u where
    u: "pending u = pending w" "served u = served w" "sched u = []" "\<not> signalled u" and
    fin: "\<And>st1 t. final (run_event_loop d L st u) = Some (st1, t) \<Longrightarrow>
       \<exists>oc v. gone P p (socket_path (config d)) w v \<and>
          served v = served t \<and> pending v = pending t \<and>
          (loop_result oc = (case run_event_loop d L st u of Err e _ \<Rightarrow> Inl e | _ \<Rightarrow> Inr ())) \<and>
          run d L w = lift_result (in_order [loop_result oc, stop_result d st1]) v"
    by blast
  have "backlog u = backlog w" using u(1,3) assms(9) by (simp add: pending_def)
  with run_event_loop_serves [OF assms(7) u(3,4) assms(10)] assms(11) obtain t where
    t: "run_event_loop d L st u = (case r of Inr _ \<Rightarrow> Ok () (st1, t) | Inl e \<Rightarrow> Err e (st1, t))"
    "backlog t = rest" "sched t = []" "served t = served u @ handled"
    by fastforce
  then have "final (run_event_loop d L st u) = Some (st1, t)" by (cases r) simp_all
  from fin [OF this] t u(2) show ?thesis
    by (cases r) (auto simp: pending_def)
qed

section \<open>Properties\<close>

text \<open>C4: Every run is a conversation: whatever arrives and whatever fails while the daemon serves on
  paths nobody else touches, a run that returns has taken the first connections that were waiting or
  came, in order, each handled once on the state the one before it left, has left the others alone
  and its paths free, and its result is the error that ended the conversation, if any, else what
  \<^verbatim>\<open>on_stop\<close> said of the last state.\<close>

theorem run_is_conversation:
  assumes "own_paths P p (socket_path (config d)) w" "pid_file (config d) = Some p"
    and "\<And>q v. pid_alive L q v = alive q" "\<And>sig v. register_signal L sig v = Inr ()"
    and "claim_decision alive (file_content (fs w p)) \<in> {Take, Replace}"
    and "bind_decision (fs w (socket_path (config d))) \<in> {BindFresh, BindReplace}"
    and "poll_contract L" "on_start d = Inr st"
  shows "run d L w = Hang \<or>
    (\<exists>v ss handled oc st1.
       run d L w = lift_result (in_order [loop_result oc, stop_result d st1]) v \<and>
       pending w = ss @ pending v \<and> served v = served w @ handled \<and>
       conversation d st ss oc st1 handled \<and> gone P p (socket_path (config d)) w v)"
proof -
  from run_calm_transcript [OF assms] obtain u where
    u: "pending u = pending w" "served u = served w" and
    fin: "\<And>st1 t. final (run_event_loop d L st u) = Some (st1, t) \<Longrightarrow>
       \<exists>oc v. transcript d st u oc st1 t \<and> gone P p (socket_path (config d)) w v \<and>
          served v = served t \<and> pending v = pending t \<and>
          run d L w = lift_result (in_order [loop_result oc, stop_result d st1]) v" and
    hang: "run_event_loop d L st u = Hang \<longrightarrow> run d L w = Hang"
    by blast
  show ?thesis
  proof (cases "final (run_event_loop d L st u)")
    case None
    with hang show ?thesis by (cases "run_event_loop d L st u") auto
  next
    case (Some sw)
    obtain st1 t where "sw = (st1, t)" by (cases sw)
    with fin [of st1 t] Some u show ?thesis by (fastforce simp: transcript_def)
  qed
qed

theorem run_is_conversation_witness:
  "\<exists>v ss handled oc st1.
     run echo_daemon quiet_libc (demo_queue [request_stream [5], demo_stream []])
       = lift_result (in_order [loop_result oc, Inr ()]) v \<and>
     [request_stream [5], demo_stream []] = ss @ pending v \<and>
     conversation echo_daemon 0 ss oc st1 handled \<and> fs v demo_pid_path = None"
proof -
  let ?w = "demo_queue [request_stream [5], demo_stream []]"
  have "run echo_daemon quiet_libc ?w \<noteq> Hang"
    by (rule run_returns [OF model_poll.poll_contract_axioms]) (simp add: demo_peers)
  with run_is_conversation [OF demo_own_paths echo_daemon_sel(2) model_alive demo_may_start(3,1,2)
      model_poll.poll_contract_axioms echo_daemon_sel(5), of "[request_stream [5], demo_stream []]"]
  obtain v ss handled oc st1 where
    "run echo_daemon quiet_libc ?w
       = lift_result (in_order [loop_result oc, stop_result echo_daemon st1]) v"
    "pending ?w = ss @ pending v" "conversation echo_daemon 0 ss oc st1 handled"
    "fs v demo_pid_path = None"
    unfolding gone_def by blast
  then show ?thesis
    by (intro exI [of _ v] exI [of _ ss] exI [of _ handled] exI [of _ oc] exI [of _ st1])
      (simp add: stop_result_def)
qed

text \<open>C5: A run is the reference function: started where connections already wait and nothing else
  happens, a daemon handles exactly the connections \<open>serve_all\<close> handles, ends as it says, with the
  application in the state it says, leaves the rest of the queue to whoever comes next, and returns
  the reference's error or what \<^verbatim>\<open>on_stop\<close> says, with both files gone.\<close>

theorem run_serves_queue:
  assumes "own_paths P p (socket_path (config d)) w" "pid_file (config d) = Some p"
    and "\<And>q v. pid_alive L q v = alive q" "\<And>sig v. register_signal L sig v = Inr ()"
    and "claim_decision alive (file_content (fs w p)) \<in> {Take, Replace}"
    and "bind_decision (fs w (socket_path (config d))) \<in> {BindFresh, BindReplace}"
    and "poll_contract L" "on_start d = Inr st" "sched w = []" "0 < idle_timeout (config d)"
    and "serve_all d st (backlog w) = Some (r, st1, handled, rest)"
  shows "\<exists>v. run d L w = lift_result (in_order [r, stop_result d st1]) v \<and>
             served v = served w @ handled \<and> pending v = rest \<and>
             gone P p (socket_path (config d)) w v"
  using assms by (rule run_queue_final)

theorem run_serves_queue_witness:
  "\<exists>v. run echo_daemon quiet_libc (demo_queue [demo_stream [], request_stream [5]])
         = Err (Io eof_error) v \<and>
       pending v = [request_stream [5]] \<and> fs v demo_sock_path = None"
proof -
  let ?ss = "[demo_stream [], request_stream [5]]"
  have "process_connection echo_daemon (demo_stream []) 0 = Err (Io eof_error) (0, demo_stream [])"
    by (rule empty_connection) simp_all
  then have s: "serve_all echo_daemon 0 (backlog (demo_queue ?ss))
      = Some (Inl (Io eof_error), 0, [demo_stream []], [request_stream [5]])"
    by simp
  have "sched (demo_queue ?ss) = []" "0 < idle_timeout (config echo_daemon)" by simp_all
  from run_serves_queue [OF demo_own_paths echo_daemon_sel(2) model_alive demo_may_start(3,1,2)
      model_poll.poll_contract_axioms echo_daemon_sel(5) this s]
  show ?thesis by (auto simp: gone_def)
qed

section \<open>Every client of a run\<close>

text \<open>A reply of the handler that fits a frame, its error message being a string as the type of the
  handler says; and a sequence of requests with the two ends of their connections, each joined with the handling
  in the state the requests before it left.\<close>

definition carried :: "bytes + bytes \<Rightarrow> bool" where
  "carried r \<longleftrightarrow> (case r of
      Inl msg \<Rightarrow> utf8_valid msg \<and> length msg < 2 ^ 32
    | Inr resp \<Rightarrow> length resp < 2 ^ 32)"

fun visits :: "'s daemon \<Rightarrow> 's \<Rightarrow> (bytes \<times> stream \<times> stream) list \<Rightarrow> bool" where
  "visits d st [] = True"
| "visits d st ((pl, cs, ds) # vs) =
     (joined d st KRequest pl cs ds \<and> length pl \<le> max_payload_len (config d) \<and> length pl < 2 ^ 32 \<and>
      carried (fst (on_request d st pl)) \<and> visits d (snd (on_request d st pl)) vs)"

definition state_after :: "'s daemon \<Rightarrow> 's \<Rightarrow> bytes list \<Rightarrow> 's" where
  "state_after d st pls = fold (\<lambda>pl st. snd (on_request d st pl)) pls st"

lemma state_after_simps [simp]:
  "state_after d st [] = st"
  "state_after d st (pl # pls) = state_after d (snd (on_request d st pl)) pls"
  by (simp_all add: state_after_def)

definition reply_length :: "bytes + bytes \<Rightarrow> nat" where
  "reply_length r = (case r of Inl msg \<Rightarrow> length msg | Inr resp \<Rightarrow> length resp)"

lemma request_handled:
  assumes "joined d st KRequest pl cs ds" "length pl \<le> max_payload_len (config d)"
    "length pl < 2 ^ 32" "on_request d st pl = (r, st1)" "reply_length r < 2 ^ 32"
  shows "\<exists>ds1. process_connection d ds st = Ok Continue (st1, ds1)"
proof -
  obtain rk reply where a: "answer d st \<lparr>kind = KRequest, flags = 0, payload = pl\<rparr>
      = (rk, reply, Continue, st1)" "length reply = reply_length r"
    using assms(4) by (cases r) (auto simp: answer_def reply_length_def)
  with exchange [OF assms(1-3) a(1), of "length reply"] assms(5) show ?thesis by auto
qed

lemma shutdown_handled:
  assumes "joined d st KShutdown [] cs ds"
  shows "\<exists>ds1. process_connection d ds st = Ok StopDaemon (st, ds1)"
proof -
  have "answer d st \<lparr>kind = KShutdown, flags = 0, payload = []\<rparr> = (KShutdownAck, [], StopDaemon, st)"
    by (simp add: answer_def)
  from exchange [OF assms _ _ this, of 0] show ?thesis by auto
qed

lemma carried_length: "carried r \<Longrightarrow> reply_length r < 2 ^ 32"
  by (cases r) (simp_all add: reply_length_def carried_def)

lemma serve_all_visits:
  "visits d st vs \<Longrightarrow> serve_all d (state_after d st (map fst vs)) tail = Some (r, st2, h, rest) \<Longrightarrow>
   \<exists>hs. length hs = length vs \<and>
        serve_all d st (map (snd \<circ> snd) vs @ tail) = Some (r, st2, hs @ h, rest)"
proof (induction vs arbitrary: st)
  case (Cons x vs)
  obtain pl cs ds where x: "x = (pl, cs, ds)" by (cases x)
  obtain reply st1 where req: "on_request d st pl = (reply, st1)" by (cases "on_request d st pl")
  from Cons.prems(1) x req have v: "joined d st KRequest pl cs ds"
    "length pl \<le> max_payload_len (config d)" "length pl < 2 ^ 32" "visits d st1 vs"
    "reply_length reply < 2 ^ 32"
    using carried_length [of reply] by simp_all
  from request_handled [OF v(1-3) req v(5)] obtain ds1 where
    "process_connection d ds st = Ok Continue (st1, ds1)" by blast
  moreover have "serve_all d (state_after d st1 (map fst vs)) tail = Some (r, st2, h, rest)"
    using Cons.prems(2) x req by simp
  from Cons.IH [OF v(4) this] obtain hs where
    "length hs = length vs" "serve_all d st1 (map (snd \<circ> snd) vs @ tail) = Some (r, st2, hs @ h, rest)"
    by blast
  ultimately show ?case using x by (intro exI [of _ "ds1 # hs"]) (simp add: comp_def)
qed auto

lemma visits_nth:
  "visits d st vs \<Longrightarrow> i < length vs \<Longrightarrow> vs ! i = (pl, cs, ds) \<Longrightarrow>
   visits d (state_after d st (map fst (take i vs))) [(pl, cs, ds)]"
proof (induction vs arbitrary: st i)
  case (Cons x vs)
  then show ?case by (cases i; cases x) (auto split: prod.splits)
qed simp

text \<open>C3: A whole run with all its clients: a daemon started where the connections of \<open>n\<close> requests and
  then a shutdown wait serves them all, ends as \<^verbatim>\<open>on_stop\<close> says of the state after the last request,
  leaves both paths free and later connections waiting; and every one of the \<open>n\<close> clients, wherever
  it runs, gets exactly what the handler answers to its request in the state the requests before it
  left.\<close>

theorem clients_of_a_run:
  assumes "own_paths P p (socket_path (config d)) w" "pid_file (config d) = Some p"
    and "\<And>q v. pid_alive L q v = alive q" "\<And>sig v. register_signal L sig v = Inr ()"
    and "claim_decision alive (file_content (fs w p)) \<in> {Take, Replace}"
    and "bind_decision (fs w (socket_path (config d))) \<in> {BindFresh, BindReplace}"
    and "poll_contract L" "on_start d = Inr st" "sched w = []" "0 < idle_timeout (config d)"
    and "backlog w = map (snd \<circ> snd) vs @ sd # rest" "visits d st vs"
    and "joined d (state_after d st (map fst vs)) KShutdown [] sc sd"
  shows "(\<exists>v handled.
       run d L w = lift_result (stop_result d (state_after d st (map fst vs))) v \<and>
       served v = served w @ handled \<and> length handled = Suc (length vs) \<and> pending v = rest \<and>
       gone P p (socket_path (config d)) w v) \<and>
     (\<forall>i < length vs. \<forall>c wc pl cs ds reply.
       vs ! i = (pl, cs, ds) \<and> reaches c wc cs \<and>
       reply = fst (on_request d (state_after d st (map fst (take i vs))) pl) \<and>
       reply_length reply \<le> c_max_payload_len c \<longrightarrow>
       (\<exists>v. send_request_once c pl wc =
          (case reply of Inl msg \<Rightarrow> Err (DaemonReturnedError msg) v | Inr resp \<Rightarrow> Ok resp v)))"
proof (intro conjI allI impI)
  let ?st = "state_after d st (map fst vs)"
  obtain sd1 where "process_connection d sd ?st = Ok StopDaemon (?st, sd1)"
    using shutdown_handled [OF assms(13)] by blast
  then have "serve_all d ?st (sd # rest) = Some (Inr (), ?st, [sd1], rest)" by simp
  from serve_all_visits [OF assms(12) this] obtain hs where
    hs: "length hs = length vs" "serve_all d st (backlog w) = Some (Inr (), ?st, hs @ [sd1], rest)"
    using assms(11) by auto
  obtain v where v: "run d L w = lift_result (in_order [Inr (), stop_result d ?st]) v"
    "served v = served w @ hs @ [sd1]" "pending v = rest" "gone P p (socket_path (config d)) w v"
    using run_queue_final [OF assms(1-10) hs(2)] by blast
  from v(1) have "run d L w = lift_result (stop_result d ?st) v" by (cases "stop_result d ?st") simp_all
  with v hs(1) show "\<exists>v handled.
       run d L w = lift_result (stop_result d ?st) v \<and>
       served v = served w @ handled \<and> length handled = Suc (length vs) \<and> pending v = rest \<and>
       gone P p (socket_path (config d)) w v"
    by (intro exI [of _ v] exI [of _ "hs @ [sd1]"]) simp
next
  fix i c wc pl cs ds reply
  let ?st = "state_after d st (map fst (take i vs))"
  assume i: "i < length vs" and "vs ! i = (pl, cs, ds) \<and> reaches c wc cs \<and>
       reply = fst (on_request d ?st pl) \<and> reply_length reply \<le> c_max_payload_len c"
  then have at: "vs ! i = (pl, cs, ds)" and reach: "reaches c wc cs"
    and len: "reply_length reply \<le> c_max_payload_len c"
    and fst_req: "fst (on_request d ?st pl) = reply"
    by blast+
  then have req: "on_request d ?st pl = (reply, snd (on_request d ?st pl))"
    by (metis prod.collapse)
  have "visits d ?st [(pl, cs, ds)]" using assms(12) i at by (rule visits_nth)
  then have v: "joined d ?st KRequest pl cs ds"
    "length pl \<le> max_payload_len (config d)" "length pl < 2 ^ 32" "carried reply"
    by (simp_all only: visits.simps fst_req)
  then have "case reply of
      Inl msg \<Rightarrow> utf8_valid msg \<and> length msg \<le> c_max_payload_len c \<and> length msg < 2 ^ 32
    | Inr resp \<Rightarrow> length resp \<le> c_max_payload_len c \<and> length resp < 2 ^ 32"
    using len by (cases reply) (simp_all add: reply_length_def carried_def)
  from request_round [OF reach v(1-3) req this] obtain v' cs1 where
    "send_request_once c pl wc =
      (case reply of Inl msg \<Rightarrow> Err (DaemonReturnedError msg) v' | Inr resp \<Rightarrow> Ok resp v') \<and>
     served v' = served wc @ [cs1] \<and> outbox cs1 = unread ds"
    by blast
  then show "\<exists>v. send_request_once c pl wc =
      (case reply of Inl msg \<Rightarrow> Err (DaemonReturnedError msg) v | Inr resp \<Rightarrow> Ok resp v)"
    by (intro exI [of _ v']) simp
qed

text \<open>Two requests of the echo daemon, then a shutdown.\<close>

definition demo_ends :: "frame_kind \<Rightarrow> bytes \<Rightarrow> frame_kind \<Rightarrow> bytes \<Rightarrow> stream \<times> stream" where
  "demo_ends k pl rk reply =
     (demo_stream [Chunk (frame_bytes rk 0 reply)], demo_stream [Chunk (frame_bytes k 0 pl)])"

lemma demo_echo:
  assumes "length pl \<le> 1024"
  shows "visits echo_daemon n [(pl, demo_ends KRequest pl KResponse pl)]"
proof -
  have "answer echo_daemon n \<lparr>kind = KRequest, flags = 0, payload = pl\<rparr>
      = (KResponse, pl, Continue, Suc n)"
    by (simp add: answer_def)
  from demo_joined [OF this] assms show ?thesis by (simp add: demo_ends_def carried_def)
qed

lemma demo_shutdown: "joined echo_daemon n KShutdown [] (fst (demo_ends KShutdown [] KShutdownAck []))
    (snd (demo_ends KShutdown [] KShutdownAck []))"
proof -
  have "answer echo_daemon n \<lparr>kind = KShutdown, flags = 0, payload = []\<rparr>
      = (KShutdownAck, [], StopDaemon, n)"
    by (simp add: answer_def)
  from demo_joined [OF this] show ?thesis by (simp add: demo_ends_def)
qed

theorem clients_of_a_run_witness:
  "\<exists>v. run echo_daemon quiet_libc (demo_queue
         [snd (demo_ends KRequest [1] KResponse [1]), snd (demo_ends KRequest [2, 3] KResponse [2, 3]),
          snd (demo_ends KShutdown [] KShutdownAck []), demo_stream []]) = Ok () v \<and>
       pending v = [demo_stream []] \<and>
       (\<exists>u. send_request_once demo_client [2, 3]
          (live_world [fst (demo_ends KRequest [2, 3] KResponse [2, 3])]) = Ok [2, 3] u)"
proof -
  let ?e1 = "demo_ends KRequest [1] KResponse [1]" and ?e2 = "demo_ends KRequest [2, 3] KResponse [2, 3]"
    and ?es = "demo_ends KShutdown [] KShutdownAck []"
  let ?vs = "[([1], ?e1), ([2, 3], ?e2)]"
  let ?w = "demo_queue [snd ?e1, snd ?e2, snd ?es, demo_stream []]"
  have vis: "visits echo_daemon 0 ?vs"
    using demo_echo [of "[1]" 0] demo_echo [of "[2, 3]" 1]
    by (cases ?e1; cases ?e2) simp
  have w: "sched ?w = []" "0 < idle_timeout (config echo_daemon)"
    "backlog ?w = map (snd \<circ> snd) ?vs @ snd ?es # [demo_stream []]" by simp_all
  have cap: "c_max_payload_len demo_client = 16777216"
    by (simp add: demo_client_def with_auto_start_def with_pid_file_def client_new_def
        DEFAULT_MAX_PAYLOAD_LEN_def)
  note all = clients_of_a_run [OF demo_own_paths echo_daemon_sel(2) model_alive demo_may_start(3,1,2)
      model_poll.poll_contract_axioms echo_daemon_sel(5) w vis demo_shutdown]
  obtain v where "run echo_daemon quiet_libc ?w = Ok () v" "pending v = [demo_stream []]"
    using conjunct1 [OF all] by (auto simp: stop_result_def)
  moreover have "\<exists>u. send_request_once demo_client [2, 3] (live_world [fst ?e2]) = Ok [2, 3] u"
    using conjunct2 [OF all, rule_format, of 1 "[2, 3]" "fst ?e2" "snd ?e2" demo_client
        "live_world [fst ?e2]" "Inr [2, 3]"]
    by (simp add: live_reaches reply_length_def cap)
  ultimately show ?thesis by blast
qed

end
