(* ===== verification/Ffi_Properties.thy ===== *)
theory Ffi_Properties imports Ffi Client_Properties begin

text \<open>
  The properties of \<^verbatim>\<open>src/ffi.rs\<close>: memory safety for callers that keep the interface's rules, what a
  call leaves in the caller's cells, and that a failing setter changes nothing.
\<close>

section \<open>Live pointers\<close>

text \<open>A pointer a caller may pass: null, or the address of a live object.\<close>

fun live :: "(addr \<Rightarrow> 'a option) \<Rightarrow> pointer \<Rightarrow> bool" where
  "live m None = True"
| "live m (Some a) = (m a \<noteq> None)"

abbreviation defined :: "'a call \<Rightarrow> bool" where
  "defined r \<equiv> (\<forall>st. r \<noteq> Err Undefined st)"

lemma write_error_cases:
  assumes "live (pointer_cells st) error_out"
  shows "\<exists>st1. write_error error_out m code st = Ok code st1 \<and>
    configs st1 = configs st \<and> buffers st1 = buffers st \<and> c_world st1 = c_world st \<and>
    size_cells st1 = size_cells st \<and> bool_cells st1 = bool_cells st \<and> arrays st1 = arrays st \<and>
    (case error_out of
       None \<Rightarrow> st1 = st
     | Some cell \<Rightarrow>
         strings st1 = (strings st)(next_addr st \<mapsto> filter (\<lambda>b. b \<noteq> 0) m) \<and>
         pointer_cells st1 = (pointer_cells st)(cell \<mapsto> Some (next_addr st)))"
  using assms
  by (cases error_out) (auto simp: write_error_def new_string_def set_pointer_def)

lemma write_error_configs:
  "write_error error_out m code st = Ok x st1 \<Longrightarrow> configs st1 = configs st \<and> x = code"
  by (auto simp: write_error_def new_string_def set_pointer_def run_iffs split: option.splits if_splits)

lemma config_mut_OkD:
  "config_mut cfg error_out st = Ok r st1 \<Longrightarrow>
   configs st1 = configs st \<and>
   (\<forall>a c. r = Some (a, c) \<longrightarrow> st1 = st \<and> cfg = Some a \<and> configs st a = Some c)"
  by (auto simp: config_mut_def deref_def run_iffs split: option.splits dest!: write_error_configs)

lemma c_string_OkD: "c_string p st = Ok r st1 \<Longrightarrow> st1 = st"
  by (auto simp: c_string_def deref_def run_iffs split: option.splits)

lemma c_string_result_OkD:
  assumes "c_string_result p error_out st = Ok r st1"
  shows "configs st1 = configs st"
proof -
  obtain x where "c_string p st = Ok x st"
    using assms by (auto simp: c_string_result_def run_iffs dest: c_string_OkD)
  with assms show ?thesis
    by (cases x) (auto simp: c_string_result_def run_iffs dest: write_error_configs)
qed

lemma c_string_each_OkD: "c_string_each ps error_out st = Ok r st1 \<Longrightarrow> configs st1 = configs st"
  by (induction ps arbitrary: st r)
    (fastforce simp: run_iffs split: option.splits dest: c_string_result_OkD)+

lemma c_string_vec_OkD: "c_string_vec argc argv error_out st = Ok r st1 \<Longrightarrow> configs st1 = configs st"
  by (auto simp: c_string_vec_def deref_def slice_from_raw_parts_def run_iffs split: option.splits if_splits
      dest!: write_error_configs c_string_each_OkD)

section \<open>Configuration\<close>

text \<open>C37: A setter is all or nothing: when it returns anything but \<^verbatim>\<open>SOCKD_OK\<close> every configuration is
  as it was, also when the n-th of several arguments was bad; when it returns \<^verbatim>\<open>SOCKD_OK\<close> it
  changed exactly the fields it is for, in the configuration it was given.\<close>

theorem setters_all_or_nothing:
  "(sockd_client_config_set_pid_file cfg pid e st = Ok code st1 \<longrightarrow>
      (if code = SOCKD_OK
       then \<exists>a c s. cfg = Some a \<and> configs st a = Some c \<and>
                    configs st1 = (configs st)(a \<mapsto> c\<lparr>f_pid_file := Some s\<rparr>)
       else configs st1 = configs st)) \<and>
   (sockd_client_config_set_auto_start cfg prog argc argv e st = Ok code st1 \<longrightarrow>
      (if code = SOCKD_OK
       then \<exists>a c s xs. cfg = Some a \<and> configs st a = Some c \<and>
              configs st1 = (configs st)(a \<mapsto> c\<lparr>f_auto_start_program := Some s, f_auto_start_args := xs\<rparr>)
       else configs st1 = configs st)) \<and>
   (sockd_client_config_set_max_payload_len cfg n e st = Ok code st1 \<longrightarrow>
      (if code = SOCKD_OK
       then \<exists>a c. cfg = Some a \<and> configs st a = Some c \<and>
                  configs st1 = (configs st)(a \<mapsto> c\<lparr>f_max_payload_len := n\<rparr>)
       else configs st1 = configs st)) \<and>
   (sockd_client_config_set_shutdown_timeout_ms cfg n e st = Ok code st1 \<longrightarrow>
      (if code = SOCKD_OK
       then \<exists>a c. cfg = Some a \<and> configs st a = Some c \<and>
                  configs st1 = (configs st)(a \<mapsto> c\<lparr>f_shutdown_timeout_ms := n\<rparr>)
       else configs st1 = configs st))"
proof (intro conjI impI)
  assume "sockd_client_config_set_pid_file cfg pid e st = Ok code st1"
  then show "if code = SOCKD_OK
       then \<exists>a c s. cfg = Some a \<and> configs st a = Some c \<and>
                    configs st1 = (configs st)(a \<mapsto> c\<lparr>f_pid_file := Some s\<rparr>)
       else configs st1 = configs st"
    by (fastforce simp: sockd_client_config_set_pid_file_def run_iffs SOCKD_OK_def SOCKD_ERR_NULL_def
        SOCKD_ERR_UTF8_def set_config_def split: option.splits
        dest: config_mut_OkD c_string_result_OkD)
next
  assume "sockd_client_config_set_auto_start cfg prog argc argv e st = Ok code st1"
  then show "if code = SOCKD_OK
       then \<exists>a c s xs. cfg = Some a \<and> configs st a = Some c \<and>
              configs st1 = (configs st)(a \<mapsto> c\<lparr>f_auto_start_program := Some s, f_auto_start_args := xs\<rparr>)
       else configs st1 = configs st"
    by (fastforce simp: sockd_client_config_set_auto_start_def run_iffs SOCKD_OK_def
        SOCKD_ERR_NULL_def SOCKD_ERR_UTF8_def set_config_def split: option.splits
        dest: config_mut_OkD c_string_result_OkD c_string_vec_OkD)
next
  assume "sockd_client_config_set_max_payload_len cfg n e st = Ok code st1"
  then show "if code = SOCKD_OK
       then \<exists>a c. cfg = Some a \<and> configs st a = Some c \<and>
                  configs st1 = (configs st)(a \<mapsto> c\<lparr>f_max_payload_len := n\<rparr>)
       else configs st1 = configs st"
    by (fastforce simp: sockd_client_config_set_max_payload_len_def run_iffs SOCKD_OK_def
        SOCKD_ERR_NULL_def set_config_def split: option.splits dest: config_mut_OkD)
next
  assume "sockd_client_config_set_shutdown_timeout_ms cfg n e st = Ok code st1"
  then show "if code = SOCKD_OK
       then \<exists>a c. cfg = Some a \<and> configs st a = Some c \<and>
                  configs st1 = (configs st)(a \<mapsto> c\<lparr>f_shutdown_timeout_ms := n\<rparr>)
       else configs st1 = configs st"
    by (fastforce simp: sockd_client_config_set_shutdown_timeout_ms_def run_iffs SOCKD_OK_def
        SOCKD_ERR_NULL_def set_config_def split: option.splits dest: config_mut_OkD)
qed

section \<open>Requests\<close>

text \<open>The arguments of a request by a caller that keeps the rules.\<close>

definition request_args ::
  "c_state \<Rightarrow> addr \<Rightarrow> sockd_client_config \<Rightarrow> addr \<Rightarrow> bytes \<Rightarrow> addr \<Rightarrow> addr \<Rightarrow> addr \<Rightarrow> bool" where
  "request_args st a cfg b pl ptr_out len_out error_out \<longleftrightarrow>
     configs st a = Some cfg \<and> buffers st b = Some pl \<and>
     pointer_cells st ptr_out \<noteq> None \<and> size_cells st len_out \<noteq> None \<and>
     pointer_cells st error_out \<noteq> None \<and> buffers st (next_addr st) = None \<and>
     strings st (next_addr st) = None"

text \<open>C31: A request through the C interface is the client's request: the call returns \<^verbatim>\<open>SOCKD_OK\<close>
  exactly when the configured client's \<^verbatim>\<open>request\<close> on the caller's bytes succeeds, and then the
  output cells hold a fresh buffer with exactly the response and its length, which
  \<^verbatim>\<open>sockd_buffer_free\<close> takes back, leaving the buffers as they were; otherwise it returns
  \<^verbatim>\<open>SOCKD_ERR_OPERATION\<close> and the error cell holds the error's message without NUL bytes, which
  \<^verbatim>\<open>sockd_string_free\<close> takes back.\<close>

theorem ffi_request_outcome:
  assumes "request_args st a cfg b pl ptr_out len_out error_out"
  shows "let r = sockd_client_request L (Some a) (Some b) (length pl) (Some ptr_out) (Some len_out)
                   (Some error_out) st;
             p = Some (next_addr st) in
     case request (build_client cfg) L pl (c_world st) of
       Ok response w \<Rightarrow>
         \<exists>st1. r = Ok SOCKD_OK st1 \<and> c_world st1 = w \<and>
               pointer_cells st1 ptr_out = Some p \<and> size_cells st1 len_out = Some (length response) \<and>
               buffers st1 (next_addr st) = Some response \<and>
               (\<exists>st2. sockd_buffer_free p (length response) st1 = Ok () st2 \<and> buffers st2 = buffers st)
     | Err e w \<Rightarrow>
         \<exists>st1. r = Ok SOCKD_ERR_OPERATION st1 \<and> c_world st1 = w \<and>
               pointer_cells st1 error_out = Some p \<and>
               strings st1 (next_addr st) = Some (filter (\<lambda>c. c \<noteq> 0) (error_display e)) \<and>
               buffers st1 = buffers st \<and>
               (\<exists>st2. sockd_string_free p st1 = Ok () st2 \<and> strings st2 = strings st)
     | Panic w \<Rightarrow> r = Panic (st\<lparr>c_world := w\<rparr>)
     | Hang \<Rightarrow> r = Hang"
proof -
  have args: "configs st a = Some cfg" "buffers st b = Some pl" "pointer_cells st ptr_out \<noteq> None"
    "size_cells st len_out \<noteq> None" "pointer_cells st error_out \<noteq> None"
    "buffers st (next_addr st) = None" "strings st (next_addr st) = None"
    using assms by (auto simp: request_args_def)
  have fresh: "m(next_addr st := None) = m" if "m (next_addr st) = None" for m :: "addr \<Rightarrow> bytes option"
    using that by auto
  have pl: "request_bytes (Some b) (length pl) st = Ok (Some pl) st"
    using args(2) by (auto simp: request_bytes_def deref_def slice_from_raw_parts_def)
  have start: "sockd_client_request L (Some a) (Some b) (length pl) (Some ptr_out) (Some len_out)
                   (Some error_out) st
      = operate (request (build_client cfg) L pl) (Some error_out) (\<lambda>response st.
                    and_then (new_buffer response st) (\<lambda>buf st.
                    and_then (set_pointer ptr_out (Some buf) st) (\<lambda>_ st.
                    and_then (set_size len_out (length response) st) (\<lambda>_ st.
                    Ok SOCKD_OK st)))) st"
    using args(1) pl by (simp add: sockd_client_request_def config_ref_def deref_def)
  show ?thesis
  proof (cases "request (build_client cfg) L pl (c_world st)")
    case (Ok x w)
    with args start show ?thesis
      by (simp add: operate_def new_buffer_def set_pointer_def set_size_def Let_def
          sockd_buffer_free_def vec_from_raw_parts_def deref_def fresh)
  next
    case (Err e w)
    with args start show ?thesis
      by (simp add: operate_def write_error_def new_string_def set_pointer_def Let_def
          sockd_string_free_def c_string_from_raw_def deref_def fresh)
  qed (simp_all add: start operate_def Let_def)
qed

text \<open>No undefined behaviour for callers that keep the rules: when every pointer is null or points
  to a live object of its kind, and the request buffer is as long as announced, the operations never
  dereference a bad pointer, whatever the client's operation does.\<close>

theorem ffi_operations_defined:
  assumes "live (configs st) cfg" "live (pointer_cells st) e" "live (pointer_cells st) ptr_out"
    and "live (size_cells st) len_out" "live (bool_cells st) stopped_out"
    and "case b of None \<Rightarrow> True | Some a \<Rightarrow> \<exists>pl. buffers st a = Some pl \<and> n \<le> length pl"
  shows "defined (sockd_client_ping L cfg e st) \<and>
         defined (sockd_client_request L cfg b n ptr_out len_out e st) \<and>
         defined (sockd_client_shutdown L cfg stopped_out e st)"
proof -
  have err: "write_error e m code (st\<lparr>c_world := w\<rparr>) \<noteq> Err Undefined s" for m code w s
    using write_error_cases [of "st\<lparr>c_world := w\<rparr>" e m code] assms(2) by auto
  have err0: "write_error e m code st \<noteq> Err Undefined s" for m code s
    using write_error_cases [OF assms(2), of m code] by auto
  have ref: "defined (and_then (config_ref cfg e st) k)"
    if "\<And>a c. configs st a = Some c \<Longrightarrow> defined (k (Some (a, c)) st)" "\<And>st1. defined (k None st1)"
    for k :: "(addr \<times> sockd_client_config) option \<Rightarrow> c_state \<Rightarrow> int call"
    using assms(1) err0 that
    by (cases cfg) (auto simp: config_ref_def deref_def run_iffs)
  have op: "defined (operate f e k st)" if "\<And>x w. defined (k x (st\<lparr>c_world := w\<rparr>))"
    for f :: "world \<Rightarrow> ('x, world) result" and k :: "'x \<Rightarrow> c_state \<Rightarrow> int call"
    using that err by (cases "f (c_world st)") (auto simp: operate_def)
  have bytes: "request_bytes b n st \<noteq> Err Undefined s" for s
    using assms(6) by (auto simp: request_bytes_def deref_def slice_from_raw_parts_def split: option.splits)
  have bytes_st: "request_bytes b n st = Ok r s \<Longrightarrow> s = st" for r s
    by (auto simp: request_bytes_def deref_def slice_from_raw_parts_def run_iffs split: option.splits if_splits)
  have give: "defined (and_then (new_buffer x (st\<lparr>c_world := w\<rparr>)) (\<lambda>buf st.
                    and_then (set_pointer p (Some buf) st) (\<lambda>_ st.
                    and_then (set_size l (length x) st) (\<lambda>_ st. Ok SOCKD_OK st))))"
    if "ptr_out = Some p" "len_out = Some l" for x w p l
    using that assms(3,4) by (auto simp: new_buffer_def set_pointer_def set_size_def)
  have flag: "defined (and_then (set_bool cell x (st\<lparr>c_world := w\<rparr>)) (\<lambda>_ st. Ok SOCKD_OK st))"
    if "stopped_out = Some cell" for cell x w
    using that assms(5) by (auto simp: set_bool_def)
  have given: "defined (operate f e (\<lambda>response st.
                    and_then (new_buffer response st) (\<lambda>buf st.
                    and_then (set_pointer p (Some buf) st) (\<lambda>_ st.
                    and_then (set_size l (length response) st) (\<lambda>_ st.
                    Ok SOCKD_OK st)))) st)"
    if "ptr_out = Some p" "len_out = Some l" for f p l
    by (rule op, rule give [OF that])
  have flagged: "defined (operate f e (\<lambda>stopped st.
                and_then (set_bool cell stopped st) (\<lambda>_ st. Ok SOCKD_OK st)) st)"
    if "stopped_out = Some cell" for f cell
    by (rule op, rule flag [OF that])
  have pong: "defined (operate (ping (build_client c) L) e (\<lambda>_ st. Ok SOCKD_OK st) st)" for c
    by (rule op) simp
  have "defined (sockd_client_ping L cfg e st)"
    unfolding sockd_client_ping_def by (rule ref) (simp_all add: pong)
  moreover have "defined (sockd_client_request L cfg b n ptr_out len_out e st)"
    unfolding sockd_client_request_def
  proof (rule ref)
    fix a c
    show "defined (case Some (a, c) of
       None \<Rightarrow> Ok SOCKD_ERR_NULL st
     | Some (a, c) \<Rightarrow>
         (case (ptr_out, len_out) of
            (Some ptr_out, Some len_out) \<Rightarrow>
              and_then (request_bytes b n st) (\<lambda>payload st.
              case payload of
                None \<Rightarrow>
                  write_error e
                    (s2b ''request pointer must not be null when request_len > 0'')
                    SOCKD_ERR_NULL st
              | Some pl \<Rightarrow>
                  operate (request (build_client c) L pl) e (\<lambda>response st.
                    and_then (new_buffer response st) (\<lambda>buf st.
                    and_then (set_pointer ptr_out (Some buf) st) (\<lambda>_ st.
                    and_then (set_size len_out (length response) st) (\<lambda>_ st.
                    Ok SOCKD_OK st)))) st)
          | _ \<Rightarrow>
              write_error e (s2b ''response output pointers must not be null'')
                SOCKD_ERR_NULL st))"
      using err0 bytes given
      by (auto simp: run_iffs split: option.splits dest!: bytes_st)
  qed simp
  moreover have "defined (sockd_client_shutdown L cfg stopped_out e st)"
    unfolding sockd_client_shutdown_def
    by (rule ref) (auto simp: err0 flagged split: option.splits)
  ultimately show ?thesis by blast
qed

section \<open>Null arguments\<close>

text \<open>Null arguments are reported, never dereferenced: a null configuration gives
  \<^verbatim>\<open>SOCKD_ERR_NULL\<close> in every function that takes one, freeing null does nothing, and a null
  string makes \<^verbatim>\<open>sockd_client_config_new\<close> return null and the setters return
  \<^verbatim>\<open>SOCKD_ERR_UTF8\<close>, the code the header reserves for text that is not UTF-8, not
  \<^verbatim>\<open>SOCKD_ERR_NULL\<close>. None of it changes the state when no error cell is given.\<close>

theorem null_arguments:
  "sockd_client_config_new None st = Ok None st \<and>
   sockd_client_config_free None st = Ok () st \<and>
   sockd_buffer_free None n st = Ok () st \<and> sockd_string_free None st = Ok () st \<and>
   sockd_client_config_set_pid_file None p None st = Ok SOCKD_ERR_NULL st \<and>
   sockd_client_config_set_auto_start None p n q None st = Ok SOCKD_ERR_NULL st \<and>
   sockd_client_config_set_max_payload_len None n None st = Ok SOCKD_ERR_NULL st \<and>
   sockd_client_config_set_shutdown_timeout_ms None n None st = Ok SOCKD_ERR_NULL st \<and>
   sockd_client_ping L None None st = Ok SOCKD_ERR_NULL st \<and>
   sockd_client_request L None b n x y None st = Ok SOCKD_ERR_NULL st \<and>
   sockd_client_shutdown L None x None st = Ok SOCKD_ERR_NULL st"
  by (simp add: sockd_client_config_new_def c_string_def sockd_client_config_free_def
      sockd_buffer_free_def sockd_string_free_def sockd_client_config_set_pid_file_def
      sockd_client_config_set_auto_start_def sockd_client_config_set_max_payload_len_def
      sockd_client_config_set_shutdown_timeout_ms_def sockd_client_ping_def
      sockd_client_request_def sockd_client_shutdown_def config_mut_def config_ref_def
      write_error_def)

text \<open>A null string is reported as bad UTF-8: with a live configuration, a null PID file path, a null
  program, and a null argument array of announced length one or more all give
  \<^verbatim>\<open>SOCKD_ERR_UTF8\<close> and leave the state as it was when no error cell is given.\<close>

theorem null_string_code:
  assumes "configs st a = Some c" "strings st s = Some text" "utf8_valid text" "0 < n"
  shows "sockd_client_config_set_pid_file (Some a) None None st = Ok SOCKD_ERR_UTF8 st \<and>
         sockd_client_config_set_auto_start (Some a) None n q None st = Ok SOCKD_ERR_UTF8 st \<and>
         sockd_client_config_set_auto_start (Some a) (Some s) n None None st = Ok SOCKD_ERR_UTF8 st"
  using assms
  by (simp add: sockd_client_config_set_pid_file_def sockd_client_config_set_auto_start_def
      config_mut_def deref_def c_string_result_def c_string_def c_string_vec_def write_error_def)

section \<open>Building a client step by step\<close>

text \<open>The configuration a C caller builds is the client a Rust caller builds: after creating a
  configuration for a path and setting the PID file, the program with its arguments, the payload
  limit and the timeout, the client used for every operation is \<^verbatim>\<open>Client::new\<close> with exactly those
  settings.\<close>

theorem c_configuration_builds_client:
  assumes "strings st sp = Some s" "utf8_valid s" "strings st pf = Some p" "utf8_valid p"
    and "strings st pg = Some g" "utf8_valid g" "arrays st av = Some [Some x]"
    and "strings st x = Some y" "utf8_valid y"
  shows "\<exists>a st1 st2 st3 st4 st5 cfg.
     sockd_client_config_new (Some sp) st = Ok (Some a) st1 \<and>
     sockd_client_config_set_pid_file (Some a) (Some pf) e st1 = Ok SOCKD_OK st2 \<and>
     sockd_client_config_set_auto_start (Some a) (Some pg) 1 (Some av) e st2 = Ok SOCKD_OK st3 \<and>
     sockd_client_config_set_max_payload_len (Some a) n e st3 = Ok SOCKD_OK st4 \<and>
     sockd_client_config_set_shutdown_timeout_ms (Some a) t e st4 = Ok SOCKD_OK st5 \<and>
     configs st5 a = Some cfg \<and>
     build_client cfg =
       with_auto_start_config
         (with_pid_file
           (with_shutdown_timeout (with_max_payload_len (client_new (path_from s)) n) (from_millis t))
           (path_from p))
         (with_arg (auto_start_new (path_from g)) y)"
  using assms
  by (simp add: sockd_client_config_new_def c_string_def deref_def new_config_def
      sockd_client_config_set_pid_file_def sockd_client_config_set_auto_start_def
      sockd_client_config_set_max_payload_len_def sockd_client_config_set_shutdown_timeout_ms_def
      config_mut_def c_string_result_def c_string_vec_def slice_from_raw_parts_def set_config_def build_client_def Let_def
      with_args_def with_arg_def)

section \<open>Witnesses\<close>

definition demo_c_config :: sockd_client_config where
  "demo_c_config =
     \<lparr>f_socket_path = s2b ''/tmp/d.sock'', f_pid_file = None, f_auto_start_program = None,
      f_auto_start_args = [], f_max_payload_len = 64, f_shutdown_timeout_ms = 100\<rparr>"

definition demo_c_state :: c_state where
  "demo_c_state =
     \<lparr>c_world = idle_world [], configs = [1 \<mapsto> demo_c_config], strings = [2 \<mapsto> s2b ''/tmp/d''],
      arrays = [3 \<mapsto> [Some 2]], buffers = [4 \<mapsto> [1, 2]], pointer_cells = [5 \<mapsto> None, 6 \<mapsto> None],
      size_cells = [7 \<mapsto> 0], bool_cells = [8 \<mapsto> False], next_addr = 10\<rparr>"

lemma demo_c_client: "build_client demo_c_config = with_shutdown_timeout
    (with_max_payload_len (client_new demo_sock_path) 64) (from_millis 100)"
  by (simp add: build_client_def demo_c_config_def path_from_def demo_sock_path_def s2b_def)

lemma demo_text_valid: "utf8_valid (s2b ''/tmp/d'')"
  by (rule s2b_ascii_valid) simp

theorem setters_all_or_nothing_witness:
  "\<exists>st1. sockd_client_config_set_max_payload_len (Some 1) 9 None demo_c_state = Ok SOCKD_OK st1 \<and>
     configs st1 = [1 \<mapsto> demo_c_config\<lparr>f_max_payload_len := 9\<rparr>]"
proof -
  obtain st1 where "sockd_client_config_set_max_payload_len (Some 1) 9 None demo_c_state = Ok SOCKD_OK st1"
    by (simp add: sockd_client_config_set_max_payload_len_def config_mut_def deref_def demo_c_state_def)
  with setters_all_or_nothing [where cfg = "Some 1" and n = 9 and e = None and st = demo_c_state
      and code = SOCKD_OK and ?st1.0 = st1]
  show ?thesis by (auto simp: demo_c_state_def)
qed

theorem ffi_request_outcome_witness:
  "\<exists>st1. sockd_client_request quiet_libc (Some 1) (Some 4) 2 (Some 5) (Some 7) (Some 6) demo_c_state
           = Ok SOCKD_ERR_OPERATION st1 \<and>
         strings st1 10 = Some (filter (\<lambda>c. c \<noteq> 0) (error_display (Io (os_error NotFound))))"
proof -
  have args: "request_args demo_c_state 1 demo_c_config 4 [1, 2] 5 7 6"
    by (simp add: request_args_def demo_c_state_def)
  have "request (build_client demo_c_config) quiet_libc [1, 2] (c_world demo_c_state)
      = Err (Io (os_error NotFound)) (c_world demo_c_state)"
    by (simp add: request_def send_request_once_def connect_def unix_connect_def syscall_def
        lookup_missing demo_c_client client_new_def with_shutdown_timeout_def
        with_max_payload_len_def recover_if_needed_def demo_c_state_def)
  moreover have len: "length [1, 2 :: u8] = 2" by simp
  moreover have "next_addr demo_c_state = 10" by (simp add: demo_c_state_def)
  ultimately show ?thesis
    using ffi_request_outcome [OF args, of quiet_libc, unfolded len Let_def]
    by (auto simp del: error_display.simps)
qed

theorem ffi_operations_defined_witness:
  "defined (sockd_client_request quiet_libc (Some 1) (Some 4) 2 (Some 5) (Some 7) (Some 6) demo_c_state)"
proof -
  have "live (configs demo_c_state) (Some 1)" "live (pointer_cells demo_c_state) (Some 6)"
    "live (pointer_cells demo_c_state) (Some 5)" "live (size_cells demo_c_state) (Some 7)"
    "live (bool_cells demo_c_state) (Some 8)"
    "case Some 4 of None \<Rightarrow> True | Some a \<Rightarrow> \<exists>pl. buffers demo_c_state a = Some pl \<and> 2 \<le> length pl"
    by (simp_all add: demo_c_state_def)
  from ffi_operations_defined [OF this] show ?thesis by blast
qed

theorem null_string_code_witness:
  "sockd_client_config_set_pid_file (Some 1) None None demo_c_state = Ok SOCKD_ERR_UTF8 demo_c_state"
proof -
  have "configs demo_c_state 1 = Some demo_c_config" "strings demo_c_state 2 = Some (s2b ''/tmp/d'')"
    by (simp_all add: demo_c_state_def)
  from null_string_code [OF this demo_text_valid, of 1] show ?thesis by simp
qed

theorem c_configuration_builds_client_witness:
  "\<exists>a st1 st2 st3 st4 st5 cfg. sockd_client_config_new (Some 2) demo_c_state = Ok (Some a) st1 \<and>
     sockd_client_config_set_pid_file (Some a) (Some 2) None st1 = Ok SOCKD_OK st2 \<and>
     sockd_client_config_set_auto_start (Some a) (Some 2) 1 (Some 3) None st2 = Ok SOCKD_OK st3 \<and>
     sockd_client_config_set_max_payload_len (Some a) 9 None st3 = Ok SOCKD_OK st4 \<and>
     sockd_client_config_set_shutdown_timeout_ms (Some a) 8 None st4 = Ok SOCKD_OK st5 \<and>
     configs st5 a = Some cfg \<and>
     build_client cfg =
       with_auto_start_config
         (with_pid_file
           (with_shutdown_timeout
             (with_max_payload_len (client_new (path_from (s2b ''/tmp/d''))) 9) (from_millis 8))
           (path_from (s2b ''/tmp/d'')))
         (with_arg (auto_start_new (path_from (s2b ''/tmp/d''))) (s2b ''/tmp/d''))"
proof -
  have s: "strings demo_c_state 2 = Some (s2b ''/tmp/d'')" "arrays demo_c_state 3 = Some [Some 2]"
    by (simp_all add: demo_c_state_def)
  from c_configuration_builds_client [OF s(1) demo_text_valid s(1) demo_text_valid s(1) demo_text_valid
      s(2) s(1) demo_text_valid, where e = None and n = 9 and t = 8]
  show ?thesis by blast
qed

end
