(* ===== verification/Ffi_Sessions.thy ===== *)
theory Ffi_Sessions imports Ffi_Properties begin

text \<open>
  Sessions of \<^verbatim>\<open>src/ffi.rs\<close>: any sequence of calls a C program makes, each on the state the calls before
  it left, with the world and the program's own cells changing in between. The program keeps a ledger
  of what the library gave it and it has not freed; the properties say that a program following its
  ledger never runs into undefined behaviour, that the ledger is exactly the memory the library
  holds for it, and that nothing else of the memory changes.
\<close>

section \<open>Calls and their replies\<close>

datatype c_call =
    Config_New pointer
  | Config_Free pointer
  | Set_Pid_File pointer pointer pointer
  | Set_Auto_Start pointer pointer nat pointer pointer
  | Set_Max_Payload_Len pointer nat pointer
  | Set_Shutdown_Timeout_Ms pointer nat pointer
  | Ping_Call pointer pointer
  | Request_Call pointer pointer nat pointer pointer pointer
  | Shutdown_Call pointer pointer pointer
  | Buffer_Free pointer nat
  | String_Free pointer

datatype reply = Handle pointer | Code int | Done

definition replying :: "('a \<Rightarrow> reply) \<Rightarrow> 'a call \<Rightarrow> reply call" where
  "replying f r = map_run (\<lambda>e. e) f (\<lambda>st. st) r"

fun perform :: "libc \<Rightarrow> c_call \<Rightarrow> c_state \<Rightarrow> reply call" where
  "perform L (Config_New p) st = replying Handle (sockd_client_config_new p st)"
| "perform L (Config_Free p) st = replying (\<lambda>_. Done) (sockd_client_config_free p st)"
| "perform L (Set_Pid_File cfg p e) st = replying Code (sockd_client_config_set_pid_file cfg p e st)"
| "perform L (Set_Auto_Start cfg p argc argv e) st =
     replying Code (sockd_client_config_set_auto_start cfg p argc argv e st)"
| "perform L (Set_Max_Payload_Len cfg n e) st =
     replying Code (sockd_client_config_set_max_payload_len cfg n e st)"
| "perform L (Set_Shutdown_Timeout_Ms cfg n e) st =
     replying Code (sockd_client_config_set_shutdown_timeout_ms cfg n e st)"
| "perform L (Ping_Call cfg e) st = replying Code (sockd_client_ping L cfg e st)"
| "perform L (Request_Call cfg b n p l e) st = replying Code (sockd_client_request L cfg b n p l e st)"
| "perform L (Shutdown_Call cfg s e) st = replying Code (sockd_client_shutdown L cfg s e st)"
| "perform L (Buffer_Free p n) st = replying (\<lambda>_. Done) (sockd_buffer_free p n st)"
| "perform L (String_Free p) st = replying (\<lambda>_. Done) (sockd_string_free p st)"

section \<open>The caller's ledger\<close>

text \<open>What the caller holds: configurations, error strings, and buffers with their lengths.\<close>

record ledger =
  held_configs :: "addr set"
  held_strings :: "addr set"
  held_buffers :: "addr \<Rightarrow> nat option"

definition no_holdings :: ledger where
  "no_holdings = \<lparr>held_configs = {}, held_strings = {}, held_buffers = Map.empty\<rparr>"

text \<open>The entries a caller makes, from the reply and from the cells it passed.\<close>

definition note_error :: "pointer \<Rightarrow> int \<Rightarrow> c_state \<Rightarrow> ledger \<Rightarrow> ledger" where
  "note_error e code st led = (case e of
      None \<Rightarrow> led
    | Some cell \<Rightarrow>
        if code = SOCKD_OK then led
        else case pointer_cells st cell of
          Some (Some s) \<Rightarrow> led\<lparr>held_strings := insert s (held_strings led)\<rparr>
        | _ \<Rightarrow> led)"

definition note_response :: "pointer \<Rightarrow> pointer \<Rightarrow> c_state \<Rightarrow> ledger \<Rightarrow> ledger" where
  "note_response p l st led = (case (p, l) of
      (Some pc, Some lc) \<Rightarrow>
        (case (pointer_cells st pc, size_cells st lc) of
           (Some (Some b), Some n) \<Rightarrow> led\<lparr>held_buffers := (held_buffers led)(b \<mapsto> n)\<rparr>
         | _ \<Rightarrow> led)
    | _ \<Rightarrow> led)"

fun book :: "c_call \<Rightarrow> reply \<Rightarrow> c_state \<Rightarrow> ledger \<Rightarrow> ledger" where
  "book (Config_New _) (Handle (Some a)) st led = led\<lparr>held_configs := insert a (held_configs led)\<rparr>"
| "book (Config_Free (Some a)) Done st led = led\<lparr>held_configs := held_configs led - {a}\<rparr>"
| "book (Set_Pid_File _ _ e) (Code c) st led = note_error e c st led"
| "book (Set_Auto_Start _ _ _ _ e) (Code c) st led = note_error e c st led"
| "book (Set_Max_Payload_Len _ _ e) (Code c) st led = note_error e c st led"
| "book (Set_Shutdown_Timeout_Ms _ _ e) (Code c) st led = note_error e c st led"
| "book (Ping_Call _ e) (Code c) st led = note_error e c st led"
| "book (Request_Call _ _ _ p l e) (Code c) st led =
     (if c = SOCKD_OK then note_response p l st led else note_error e c st led)"
| "book (Shutdown_Call _ _ e) (Code c) st led = note_error e c st led"
| "book (Buffer_Free (Some a) _) Done st led = led\<lparr>held_buffers := (held_buffers led)(a := None)\<rparr>"
| "book (String_Free (Some a)) Done st led = led\<lparr>held_strings := held_strings led - {a}\<rparr>"
| "book _ _ st led = led"

section \<open>The rules of the interface\<close>

fun held :: "addr set \<Rightarrow> pointer \<Rightarrow> bool" where
  "held S None = True"
| "held S (Some a) = (a \<in> S)"

definition readable_args :: "c_state \<Rightarrow> nat \<Rightarrow> pointer \<Rightarrow> bool" where
  "readable_args st argc argv \<longleftrightarrow> argc = 0 \<or> (case argv of
      None \<Rightarrow> True
    | Some a \<Rightarrow> (case arrays st a of
          None \<Rightarrow> False
        | Some ps \<Rightarrow> argc \<le> length ps \<and> (\<forall>p \<in> set (take argc ps). live (strings st) p)))"

definition readable_bytes :: "c_state \<Rightarrow> pointer \<Rightarrow> nat \<Rightarrow> bool" where
  "readable_bytes st b n \<longleftrightarrow> n = 0 \<or> (case b of
      None \<Rightarrow> True
    | Some a \<Rightarrow> (case buffers st a of None \<Rightarrow> False | Some bs \<Rightarrow> n \<le> length bs))"

text \<open>Configurations are passed while they are held, objects are freed while they are held and
  buffers with their length; strings, arrays and request bytes can be read, result cells written.\<close>

fun allowed :: "ledger \<Rightarrow> c_state \<Rightarrow> c_call \<Rightarrow> bool" where
  "allowed led st (Config_New p) = live (strings st) p"
| "allowed led st (Config_Free p) = held (held_configs led) p"
| "allowed led st (Set_Pid_File cfg p e) =
     (held (held_configs led) cfg \<and> live (strings st) p \<and> live (pointer_cells st) e)"
| "allowed led st (Set_Auto_Start cfg p argc argv e) =
     (held (held_configs led) cfg \<and> live (strings st) p \<and> readable_args st argc argv \<and>
      live (pointer_cells st) e)"
| "allowed led st (Set_Max_Payload_Len cfg n e) =
     (held (held_configs led) cfg \<and> live (pointer_cells st) e)"
| "allowed led st (Set_Shutdown_Timeout_Ms cfg n e) =
     (held (held_configs led) cfg \<and> live (pointer_cells st) e)"
| "allowed led st (Ping_Call cfg e) = (held (held_configs led) cfg \<and> live (pointer_cells st) e)"
| "allowed led st (Request_Call cfg b n p l e) =
     (held (held_configs led) cfg \<and> readable_bytes st b n \<and> live (pointer_cells st) p \<and>
      live (size_cells st) l \<and> live (pointer_cells st) e)"
| "allowed led st (Shutdown_Call cfg s e) =
     (held (held_configs led) cfg \<and> live (bool_cells st) s \<and> live (pointer_cells st) e)"
| "allowed led st (Buffer_Free p n) =
     (case p of None \<Rightarrow> True | Some a \<Rightarrow> held_buffers led a = Some n)"
| "allowed led st (String_Free p) = held (held_strings led) p"

text \<open>Between two calls the world moves on and the caller writes its own cells.\<close>

definition caller_moves :: "c_state \<Rightarrow> c_state \<Rightarrow> bool" where
  "caller_moves st st' \<longleftrightarrow>
     configs st' = configs st \<and> strings st' = strings st \<and> arrays st' = arrays st \<and>
     buffers st' = buffers st \<and> next_addr st' = next_addr st \<and>
     dom (pointer_cells st') = dom (pointer_cells st) \<and>
     dom (size_cells st') = dom (size_cells st) \<and> dom (bool_cells st') = dom (bool_cells st)"

inductive session :: "libc \<Rightarrow> c_state \<Rightarrow> ledger \<Rightarrow> c_state \<Rightarrow> bool" for L st0 where
  session_start: "session L st0 no_holdings st0"
| session_call: "session L st0 led st \<Longrightarrow> allowed led st c \<Longrightarrow> perform L c st = Ok r st'
     \<Longrightarrow> session L st0 (book c r st' led) st'"
| session_caller: "session L st0 led st \<Longrightarrow> caller_moves st st' \<Longrightarrow> session L st0 led st'"

inductive_cases sessionE: "session L st0 led st"

section \<open>What a call does to the memory\<close>

text \<open>Nothing but the contents of configurations and result cells, and the world.\<close>

definition quiet :: "c_state \<Rightarrow> c_state \<Rightarrow> bool" where
  "quiet st st' \<longleftrightarrow>
     dom (configs st') = dom (configs st) \<and> strings st' = strings st \<and> arrays st' = arrays st \<and>
     buffers st' = buffers st \<and> next_addr st' = next_addr st \<and>
     dom (pointer_cells st') = dom (pointer_cells st) \<and>
     dom (size_cells st') = dom (size_cells st) \<and> dom (bool_cells st') = dom (bool_cells st)"

definition with_string :: "bytes \<Rightarrow> c_state \<Rightarrow> c_state" where
  "with_string m st =
     st\<lparr>strings := (strings st)(next_addr st \<mapsto> m), next_addr := Suc (next_addr st)\<rparr>"

definition with_buffer :: "bytes \<Rightarrow> c_state \<Rightarrow> c_state" where
  "with_buffer b st =
     st\<lparr>buffers := (buffers st)(next_addr st \<mapsto> b), next_addr := Suc (next_addr st)\<rparr>"

text \<open>An error was reported: exactly one string was allocated if there is a cell for it, and the
  cell points to it.\<close>

definition errored :: "pointer \<Rightarrow> c_state \<Rightarrow> c_state \<Rightarrow> bool" where
  "errored e st st' \<longleftrightarrow> (case e of
      None \<Rightarrow> quiet st st'
    | Some cell \<Rightarrow>
        (\<exists>m. quiet (with_string m st) st') \<and> pointer_cells st' cell = Some (Some (next_addr st)))"

lemma quiet_refl [simp]: "quiet st st"
  by (simp add: quiet_def)

lemma quiet_trans: "quiet st st1 \<Longrightarrow> quiet st1 st2 \<Longrightarrow> quiet st st2"
  by (auto simp: quiet_def)

lemma quiet_with_string: "quiet st st1 \<Longrightarrow> quiet (with_string m st) (with_string m st1)"
  by (simp add: quiet_def with_string_def)

lemma quiet_errored:
  assumes "quiet st st1" "errored e st1 st2"
  shows "errored e st st2"
proof (cases e)
  case None
  with assms show ?thesis by (auto simp: errored_def intro: quiet_trans)
next
  case (Some cell)
  with assms(2) obtain m where m: "quiet (with_string m st1) st2"
    "pointer_cells st2 cell = Some (Some (next_addr st1))"
    by (auto simp: errored_def)
  have "next_addr st1 = next_addr st" using assms(1) by (simp add: quiet_def)
  moreover note quiet_trans [OF quiet_with_string [OF assms(1)] m(1)]
  ultimately show ?thesis using Some m(2) by (auto simp: errored_def)
qed

lemma quiet_world [simp]: "quiet st (st\<lparr>c_world := w\<rparr>)"
  by (simp add: quiet_def)

lemma quiet_set_config: "configs st a = Some c \<Longrightarrow> quiet st (set_config a c' st)"
  by (auto simp: quiet_def set_config_def)

lemma quiet_live: "quiet st st1 \<Longrightarrow> live (pointer_cells st1) p = live (pointer_cells st) p"
  "quiet st st1 \<Longrightarrow> live (size_cells st1) p = live (size_cells st) p"
  "quiet st st1 \<Longrightarrow> live (bool_cells st1) p = live (bool_cells st) p"
  by (cases p; auto simp: quiet_def dom_def set_eq_iff)+

lemma write_error_errored:
  assumes "live (pointer_cells st) e"
  shows "\<exists>st'. write_error e m code st = Ok code st' \<and> errored e st st'"
proof (cases e)
  case None
  then show ?thesis by (simp add: write_error_def errored_def)
next
  case (Some cell)
  with assms obtain q where "pointer_cells st cell = Some q" by auto
  with Some show ?thesis
    by (auto simp: write_error_def errored_def new_string_def set_pointer_def quiet_def
        with_string_def intro!: exI [of _ "filter (\<lambda>b. b \<noteq> 0) m"])
qed

text \<open>A helper that reports its failure: it succeeds without effect or reports one error.\<close>

definition reports :: "pointer \<Rightarrow> c_state \<Rightarrow> 'a option call \<Rightarrow> ('a \<Rightarrow> bool) \<Rightarrow> bool" where
  "reports e st r P \<longleftrightarrow> (\<exists>x. r = Ok (Some x) st \<and> P x) \<or> (\<exists>st'. r = Ok None st' \<and> errored e st st')"

lemma reports_config_mut:
  assumes "live (configs st) cfg" "live (pointer_cells st) e"
  shows "reports e st (config_mut cfg e st) (\<lambda>(a, c). configs st a = Some c)"
  using assms(1) write_error_errored [OF assms(2), of "s2b ''config pointer must not be null''" SOCKD_ERR_NULL]
  by (cases cfg) (auto simp: reports_def config_mut_def deref_def)

lemma config_ref_mut: "config_ref = config_mut"
  by (intro ext) (simp add: config_ref_def config_mut_def)

lemma reports_c_string:
  assumes "live (strings st) p" "live (pointer_cells st) e"
  shows "reports e st (c_string_result p e st) (\<lambda>_. True)"
proof -
  obtain x where x: "c_string p st = Ok x st"
    using assms(1) by (cases p) (auto simp: c_string_def deref_def)
  show ?thesis
  proof (cases x)
    case (Inl m)
    with x write_error_errored [OF assms(2), of m SOCKD_ERR_UTF8] show ?thesis
      by (auto simp: reports_def c_string_result_def)
  qed (simp add: reports_def c_string_result_def x)
qed

lemma reports_c_string_each:
  "\<forall>p \<in> set ps. live (strings st) p \<Longrightarrow> live (pointer_cells st) e \<Longrightarrow>
   reports e st (c_string_each ps e st) (\<lambda>_. True)"
proof (induction ps)
  case (Cons p ps)
  have "reports e st (c_string_result p e st) (\<lambda>_. True)" using Cons by (simp add: reports_c_string)
  moreover have "reports e st (c_string_each ps e st) (\<lambda>_. True)" using Cons by simp
  ultimately show ?case by (auto simp: reports_def)
qed (simp add: reports_def)

lemma reports_c_string_vec:
  assumes "readable_args st argc argv" "live (pointer_cells st) e"
  shows "reports e st (c_string_vec argc argv e st) (\<lambda>_. True)"
proof (cases "argc = 0")
  case False
  show ?thesis
  proof (cases argv)
    case None
    with False write_error_errored [OF assms(2),
        of "s2b ''argv pointer must not be null when argc > 0''" SOCKD_ERR_NULL]
    show ?thesis by (auto simp: reports_def c_string_vec_def)
  next
    case (Some a)
    with False assms(1) obtain ps where "arrays st a = Some ps" "argc \<le> length ps"
      "\<forall>p \<in> set (take argc ps). live (strings st) p"
      by (auto simp: readable_args_def split: option.splits)
    with Some False reports_c_string_each [of "take argc ps" st e] assms(2) show ?thesis
      by (simp add: c_string_vec_def slice_from_raw_parts_def deref_def)
  qed
qed (simp add: reports_def c_string_vec_def)

text \<open>The contract of every call that answers a code: \<^verbatim>\<open>SOCKD_OK\<close> with the effect \<open>Q\<close>, or another
  code with one error reported; never undefined.\<close>

definition coded :: "pointer \<Rightarrow> c_state \<Rightarrow> (c_state \<Rightarrow> bool) \<Rightarrow> int call \<Rightarrow> bool" where
  "coded e st Q r \<longleftrightarrow> (case r of
      Ok code st' \<Rightarrow> if code = SOCKD_OK then Q st' else errored e st st'
    | Err _ _ \<Rightarrow> False
    | _ \<Rightarrow> True)"

lemmas codes = SOCKD_OK_def SOCKD_ERR_NULL_def SOCKD_ERR_UTF8_def SOCKD_ERR_OPERATION_def

lemma codes_not_ok [simp]:
  "SOCKD_ERR_NULL \<noteq> SOCKD_OK" "SOCKD_ERR_UTF8 \<noteq> SOCKD_OK" "SOCKD_ERR_OPERATION \<noteq> SOCKD_OK"
  by (simp_all add: codes)

lemma coded_Ok: "quiet st st' \<Longrightarrow> coded e st (quiet st) (Ok SOCKD_OK st')"
  by (simp add: coded_def)

lemma coded_write_error:
  "live (pointer_cells st) e \<Longrightarrow> code \<noteq> SOCKD_OK \<Longrightarrow> coded e st Q (write_error e m code st)"
  using write_error_errored [of st e m code] by (auto simp: coded_def)

lemma coded_and_then:
  assumes "reports e st r P" "code \<noteq> SOCKD_OK" "\<And>st'. k None st' = Ok code st'"
    and "\<And>x. P x \<Longrightarrow> coded e st Q (k (Some x) st)"
  shows "coded e st Q (and_then r k)"
proof -
  consider x where "r = Ok (Some x) st" "P x" | st' where "r = Ok None st'" "errored e st st'"
    using assms(1) by (auto simp: reports_def)
  then show ?thesis
  proof cases
    case 1
    with assms(4) show ?thesis by simp
  next
    case 2
    with assms(2,3) show ?thesis by (simp add: coded_def)
  qed
qed

lemma coded_operate:
  assumes "live (pointer_cells st) e" "\<And>x w. coded e st Q (k x (st\<lparr>c_world := w\<rparr>))"
  shows "coded e st Q (operate f e k st)"
proof (cases "f (c_world st)")
  case (Err err w)
  obtain st' where "write_error e (error_display err) SOCKD_ERR_OPERATION (st\<lparr>c_world := w\<rparr>)
      = Ok SOCKD_ERR_OPERATION st'" "errored e (st\<lparr>c_world := w\<rparr>) st'"
    using write_error_errored [of "st\<lparr>c_world := w\<rparr>" e] assms(1) by auto
  with Err quiet_errored [OF quiet_world] show ?thesis
    by (auto simp: operate_def coded_def codes)
qed (use assms(2) in \<open>auto simp: operate_def coded_def\<close>)


section \<open>Each call keeps its contract\<close>

lemma coded_config:
  assumes "live (configs st) cfg" "live (pointer_cells st) e"
    and "\<And>st'. k None st' = Ok SOCKD_ERR_NULL st'"
    and "\<And>a c. configs st a = Some c \<Longrightarrow> coded e st Q (k (Some (a, c)) st)"
  shows "coded e st Q (and_then (config_mut cfg e st) k)"
  using reports_config_mut [OF assms(1,2)]
  by (rule coded_and_then [where code = SOCKD_ERR_NULL]) (auto simp: assms(3,4) codes)

lemma coded_string:
  assumes "live (strings st) p" "live (pointer_cells st) e"
    and "\<And>st'. k None st' = Ok SOCKD_ERR_UTF8 st'" "\<And>s. coded e st Q (k (Some s) st)"
  shows "coded e st Q (and_then (c_string_result p e st) k)"
  using reports_c_string [OF assms(1,2)]
  by (rule coded_and_then [where code = SOCKD_ERR_UTF8]) (auto simp: assms(3,4) codes)

lemma coded_set: "configs st a = Some c \<Longrightarrow> coded e st (quiet st) (Ok SOCKD_OK (set_config a c' st))"
  by (simp add: coded_def quiet_set_config)

lemma coded_set_pid_file:
  assumes "live (configs st) cfg" "live (strings st) p" "live (pointer_cells st) e"
  shows "coded e st (quiet st) (sockd_client_config_set_pid_file cfg p e st)"
  unfolding sockd_client_config_set_pid_file_def
  by (rule coded_config [OF assms(1,3)])
    (auto intro!: coded_string [OF assms(2,3)] coded_set)

lemma coded_set_auto_start:
  assumes "live (configs st) cfg" "live (strings st) p" "readable_args st argc argv"
    "live (pointer_cells st) e"
  shows "coded e st (quiet st) (sockd_client_config_set_auto_start cfg p argc argv e st)"
  unfolding sockd_client_config_set_auto_start_def
  by (rule coded_config [OF assms(1,4)])
    (auto intro!: coded_string [OF assms(2,4)] coded_set
      coded_and_then [OF reports_c_string_vec [OF assms(3,4)], where code = SOCKD_ERR_UTF8])

lemma coded_set_number:
  assumes "live (configs st) cfg" "live (pointer_cells st) e"
  shows "coded e st (quiet st) (sockd_client_config_set_max_payload_len cfg n e st)"
    "coded e st (quiet st) (sockd_client_config_set_shutdown_timeout_ms cfg n e st)"
  unfolding sockd_client_config_set_max_payload_len_def
    sockd_client_config_set_shutdown_timeout_ms_def
  by (rule coded_config [OF assms]; auto intro!: coded_set)+

lemma coded_ping:
  assumes "live (configs st) cfg" "live (pointer_cells st) e"
  shows "coded e st (quiet st) (sockd_client_ping L cfg e st)"
  unfolding sockd_client_ping_def config_ref_mut
  by (rule coded_config [OF assms]) (auto intro!: coded_operate [OF assms(2)] coded_Ok)

lemma coded_shutdown:
  assumes "live (configs st) cfg" "live (bool_cells st) b" "live (pointer_cells st) e"
  shows "coded e st (quiet st) (sockd_client_shutdown L cfg b e st)"
proof -
  have flag: "coded e st (quiet st)
      (and_then (set_bool cell x (st\<lparr>c_world := w\<rparr>)) (\<lambda>_ st. Ok SOCKD_OK st))"
    if "b = Some cell" for cell x w
    using that assms(2) by (auto simp: set_bool_def coded_def quiet_def)
  show ?thesis
    unfolding sockd_client_shutdown_def config_ref_mut
    by (rule coded_config [OF assms(1,3)])
      (auto split: option.splits intro!: coded_operate [OF assms(3)] coded_write_error [OF assms(3)]
        flag)
qed

text \<open>A successful request hands out one buffer, through the two cells.\<close>

definition responded :: "pointer \<Rightarrow> pointer \<Rightarrow> c_state \<Rightarrow> c_state \<Rightarrow> bool" where
  "responded p l st st' \<longleftrightarrow> (\<exists>pc lc b. p = Some pc \<and> l = Some lc \<and> quiet (with_buffer b st) st' \<and>
     pointer_cells st' pc = Some (Some (next_addr st)) \<and> size_cells st' lc = Some (length b))"

lemma request_bytes_readable:
  "readable_bytes st b n \<Longrightarrow> \<exists>r. request_bytes b n st = Ok r st"
  by (auto simp: readable_bytes_def request_bytes_def slice_from_raw_parts_def deref_def
      split: option.splits)

lemma coded_request:
  assumes "live (configs st) cfg" "readable_bytes st b n" "live (pointer_cells st) p"
    "live (size_cells st) l" "live (pointer_cells st) e"
  shows "coded e st (responded p l st) (sockd_client_request L cfg b n p l e st)"
proof -
  obtain r where r: "request_bytes b n st = Ok r st"
    using request_bytes_readable [OF assms(2)] by blast
  have give: "coded e st (responded (Some pc) (Some lc) st)
      (and_then (new_buffer x (st\<lparr>c_world := w\<rparr>)) (\<lambda>buf st.
       and_then (set_pointer pc (Some buf) st) (\<lambda>_ st.
       and_then (set_size lc (length x) st) (\<lambda>_ st. Ok SOCKD_OK st))))"
    if "p = Some pc" "l = Some lc" for x w pc lc
    using that assms(3,4)
    by (auto simp: new_buffer_def set_pointer_def set_size_def coded_def responded_def quiet_def
        with_buffer_def intro!: exI [of _ x])
  show ?thesis
    unfolding sockd_client_request_def config_ref_mut
    by (rule coded_config [OF assms(1,5)])
      (auto simp: r split: option.splits intro!: coded_operate [OF assms(5)]
        coded_write_error [OF assms(5)] give)
qed

section \<open>The ledger is the memory the library holds\<close>

text \<open>All objects of a memory lie below its next address.\<close>

definition tidy :: "c_state \<Rightarrow> bool" where
  "tidy st \<longleftrightarrow> dom (configs st) \<union> dom (strings st) \<union> dom (buffers st) \<subseteq> {..<next_addr st}"

text \<open>\<open>accounted st0 led st\<close>: the memory \<open>st\<close> is the caller's \<open>st0\<close>, unchanged, and the ledger.\<close>

definition accounted :: "c_state \<Rightarrow> ledger \<Rightarrow> c_state \<Rightarrow> bool" where
  "accounted st0 led st \<longleftrightarrow>
     tidy st \<and>
     dom (configs st) = held_configs led \<and>
     (\<forall>a. strings st0 a = (if a \<in> held_strings led then None else strings st a)) \<and>
     held_strings led \<subseteq> dom (strings st) \<and>
     (\<forall>a. buffers st0 a = (if held_buffers led a = None then buffers st a else None)) \<and>
     (\<forall>a n. held_buffers led a = Some n \<longrightarrow> (\<exists>b. buffers st a = Some b \<and> length b = n)) \<and>
     arrays st = arrays st0 \<and> dom (pointer_cells st) = dom (pointer_cells st0) \<and>
     dom (size_cells st) = dom (size_cells st0) \<and> dom (bool_cells st) = dom (bool_cells st0)"

lemma quiet_tidy: "quiet st st' \<Longrightarrow> tidy st \<Longrightarrow> tidy st'"
  by (simp add: quiet_def tidy_def)

lemma tidy_fresh: "tidy st \<Longrightarrow> configs st (next_addr st) = None \<and>
   strings st (next_addr st) = None \<and> buffers st (next_addr st) = None"
  by (auto simp: tidy_def dom_def)

lemma accounted_quiet: "accounted st0 led st \<Longrightarrow> quiet st st' \<Longrightarrow> accounted st0 led st'"
  using quiet_tidy [of st st'] by (simp add: accounted_def quiet_def)

lemma accounted_with_config:
  assumes "accounted st0 led st"
  shows "accounted st0 (led\<lparr>held_configs := insert (next_addr st) (held_configs led)\<rparr>)
    (st\<lparr>configs := (configs st)(next_addr st \<mapsto> c), next_addr := Suc (next_addr st)\<rparr>)"
  using assms by (auto simp: accounted_def tidy_def less_Suc_eq)

lemma accounted_with_string:
  assumes "accounted st0 led st"
  shows "accounted st0 (led\<lparr>held_strings := insert (next_addr st) (held_strings led)\<rparr>)
           (with_string m st)"
  using assms tidy_fresh [of st]
  by (auto simp: accounted_def with_string_def tidy_def less_Suc_eq)

lemma accounted_with_buffer:
  assumes "accounted st0 led st"
  shows "accounted st0 (led\<lparr>held_buffers := (held_buffers led)(next_addr st \<mapsto> length b)\<rparr>)
           (with_buffer b st)"
  using assms tidy_fresh [of st]
  by (auto simp: accounted_def with_buffer_def tidy_def less_Suc_eq)

lemma accounted_free_config:
  assumes "accounted st0 led st"
  shows "accounted st0 (led\<lparr>held_configs := held_configs led - {a}\<rparr>)
           (st\<lparr>configs := (configs st)(a := None)\<rparr>)"
  using assms by (auto simp: accounted_def tidy_def)

lemma accounted_free_string:
  assumes "accounted st0 led st" "a \<in> held_strings led"
  shows "accounted st0 (led\<lparr>held_strings := held_strings led - {a}\<rparr>)
           (st\<lparr>strings := (strings st)(a := None)\<rparr>)"
  using assms
  by (auto simp: accounted_def tidy_def)

lemma accounted_free_buffer:
  assumes "accounted st0 led st" "held_buffers led a = Some n"
  shows "accounted st0 (led\<lparr>held_buffers := (held_buffers led)(a := None)\<rparr>)
           (st\<lparr>buffers := (buffers st)(a := None)\<rparr>)"
  using assms
  by (auto simp: accounted_def tidy_def)

lemma accounted_live:
  "accounted st0 led st \<Longrightarrow> held (held_configs led) cfg \<Longrightarrow> live (configs st) cfg"
  by (cases cfg) (auto simp: accounted_def)

lemma accounted_buffer:
  "accounted st0 led st \<Longrightarrow> held_buffers led a = Some n \<Longrightarrow> \<exists>b. buffers st a = Some b \<and> length b = n"
  by (simp add: accounted_def)

lemma accounted_own:
  assumes "accounted st0 led st"
  shows "strings st0 a \<noteq> None \<Longrightarrow> a \<notin> held_strings led \<and> strings st a = strings st0 a"
    and "buffers st0 a \<noteq> None \<Longrightarrow> held_buffers led a = None \<and> buffers st a = buffers st0 a"
proof -
  have "strings st0 a = (if a \<in> held_strings led then None else strings st a)"
    "buffers st0 a = (if held_buffers led a = None then buffers st a else None)"
    using assms by (simp_all add: accounted_def)
  then show "strings st0 a \<noteq> None \<Longrightarrow> a \<notin> held_strings led \<and> strings st a = strings st0 a"
    "buffers st0 a \<noteq> None \<Longrightarrow> held_buffers led a = None \<and> buffers st a = buffers st0 a"
    by (auto split: if_splits)
qed

lemma accounted_dom:
  assumes "accounted st0 led st"
  shows "dom (strings st) = dom (strings st0) \<union> held_strings led"
    and "dom (buffers st) = dom (buffers st0) \<union> dom (held_buffers led)"
proof -
  have s: "strings st0 a = (if a \<in> held_strings led then None else strings st a)" for a
    using assms by (simp add: accounted_def)
  show "dom (strings st) = dom (strings st0) \<union> held_strings led"
    using assms by (auto simp: s accounted_def split: if_splits)
  have b: "buffers st0 a = (if held_buffers led a = None then buffers st a else None)" for a
    using assms by (simp add: accounted_def)
  show "dom (buffers st) = dom (buffers st0) \<union> dom (held_buffers led)"
    using accounted_buffer [OF assms] by (auto simp: b split: if_splits)
qed

lemma accounted_errored:
  assumes "accounted st0 led st" "errored e st st'" "code \<noteq> SOCKD_OK"
  shows "accounted st0 (note_error e code st' led) st'"
proof (cases e)
  case None
  with assms accounted_quiet show ?thesis by (simp add: errored_def note_error_def)
next
  case (Some cell)
  with assms(2) obtain m where "quiet (with_string m st) st'"
    "pointer_cells st' cell = Some (Some (next_addr st))"
    by (auto simp: errored_def)
  with accounted_quiet [OF accounted_with_string [OF assms(1)]] Some assms(3) show ?thesis
    by (simp add: note_error_def)
qed

lemma accounted_responded:
  assumes "accounted st0 led st" "responded p l st st'"
  shows "accounted st0 (note_response p l st' led) st'"
proof -
  obtain pc lc b where "p = Some pc" "l = Some lc" "quiet (with_buffer b st) st'"
    "pointer_cells st' pc = Some (Some (next_addr st))" "size_cells st' lc = Some (length b)"
    using assms(2) by (auto simp: responded_def)
  with accounted_quiet [OF accounted_with_buffer [OF assms(1)]] show ?thesis
    by (simp add: note_response_def)
qed

text \<open>What the contract of a call that answers a code says of its reply.\<close>

lemma coded_replying:
  assumes "coded e st Q m"
  shows "replying Code m \<noteq> Err f st'"
    and "replying Code m = Ok r st' \<Longrightarrow>
         \<exists>code. r = Code code \<and> (if code = SOCKD_OK then Q st' else errored e st st')"
  using assms by (cases m; auto simp: coded_def replying_def split: if_splits)+

lemma accounted_coded:
  assumes "accounted st0 led st" "coded e st (quiet st) m" "replying Code m = Ok r st'"
  shows "\<exists>code. r = Code code \<and> accounted st0 (note_error e code st' led) st'"
proof -
  obtain code where code: "r = Code code" "if code = SOCKD_OK then quiet st st' else errored e st st'"
    using coded_replying(2) [OF assms(2,3)] by blast
  show ?thesis
  proof (cases "code = SOCKD_OK")
    case True
    with code assms(1) accounted_quiet [of st0 led st st'] show ?thesis
      by (simp add: note_error_def split: option.splits)
  next
    case False
    with code accounted_errored [OF assms(1)] show ?thesis by simp
  qed
qed

lemmas coded_calls = coded_set_pid_file coded_set_auto_start coded_set_number coded_ping coded_shutdown

lemma session_step:
  assumes acc: "accounted st0 led st" and ok: "allowed led st c"
  shows "perform L c st \<noteq> Err f st' \<and>
    (perform L c st = Ok r st' \<longrightarrow> accounted st0 (book c r st' led) st')"
proof (cases c)
  case (Config_New p)
  with ok acc accounted_with_config [OF acc] show ?thesis
    by (cases p) (auto simp: sockd_client_config_new_def c_string_def deref_def new_config_def
        replying_def split: if_splits)
next
  case (Config_Free p)
  with ok acc accounted_free_config [OF acc] accounted_live [OF acc, of p] show ?thesis
    by (cases p) (auto simp: sockd_client_config_free_def deref_def replying_def split: option.splits)
next
  case (Set_Pid_File cfg p e)
  with ok accounted_live [OF acc, of cfg] have "coded e st (quiet st) (sockd_client_config_set_pid_file cfg p e st)"
    by (simp add: coded_set_pid_file)
  from coded_replying(1) [OF this] accounted_coded [OF acc this] Set_Pid_File show ?thesis by auto
next
  case (Set_Auto_Start cfg p argc argv e)
  with ok accounted_live [OF acc, of cfg]
  have "coded e st (quiet st) (sockd_client_config_set_auto_start cfg p argc argv e st)"
    by (simp add: coded_set_auto_start)
  from coded_replying(1) [OF this] accounted_coded [OF acc this] Set_Auto_Start show ?thesis by auto
next
  case (Set_Max_Payload_Len cfg n e)
  with ok accounted_live [OF acc, of cfg]
  have "coded e st (quiet st) (sockd_client_config_set_max_payload_len cfg n e st)"
    by (simp add: coded_set_number)
  from coded_replying(1) [OF this] accounted_coded [OF acc this] Set_Max_Payload_Len
  show ?thesis by auto
next
  case (Set_Shutdown_Timeout_Ms cfg n e)
  with ok accounted_live [OF acc, of cfg]
  have "coded e st (quiet st) (sockd_client_config_set_shutdown_timeout_ms cfg n e st)"
    by (simp add: coded_set_number)
  from coded_replying(1) [OF this] accounted_coded [OF acc this] Set_Shutdown_Timeout_Ms
  show ?thesis by auto
next
  case (Ping_Call cfg e)
  with ok accounted_live [OF acc, of cfg] have "coded e st (quiet st) (sockd_client_ping L cfg e st)"
    by (simp add: coded_ping)
  from coded_replying(1) [OF this] accounted_coded [OF acc this] Ping_Call show ?thesis by auto
next
  case (Request_Call cfg b n p l e)
  with ok accounted_live [OF acc, of cfg]
  have con: "coded e st (responded p l st) (sockd_client_request L cfg b n p l e st)"
    by (simp add: coded_request)
  have "accounted st0 (book c r st' led) st'" if ok': "perform L c st = Ok r st'"
  proof -
    obtain code where code: "r = Code code"
      "if code = SOCKD_OK then responded p l st st' else errored e st st'"
      using coded_replying(2) [OF con, of r st'] ok' Request_Call by (auto split del: if_split)
    with Request_Call accounted_responded [OF acc] accounted_errored [OF acc] show ?thesis
      by (cases "code = SOCKD_OK") simp_all
  qed
  with coded_replying(1) [OF con] Request_Call show ?thesis by simp
next
  case (Shutdown_Call cfg b e)
  with ok accounted_live [OF acc, of cfg] have "coded e st (quiet st) (sockd_client_shutdown L cfg b e st)"
    by (simp add: coded_shutdown)
  from coded_replying(1) [OF this] accounted_coded [OF acc this] Shutdown_Call show ?thesis by auto
next
  case (Buffer_Free p n)
  have "held_buffers led a = Some n \<Longrightarrow> \<exists>b. buffers st a = Some b \<and> length b = n" for a
    using acc by (simp add: accounted_def)
  with ok acc accounted_free_buffer [OF acc] Buffer_Free show ?thesis
    by (cases p) (fastforce simp: sockd_buffer_free_def vec_from_raw_parts_def deref_def replying_def)+
next
  case (String_Free p)
  have "a \<in> held_strings led \<Longrightarrow> \<exists>s. strings st a = Some s" for a
    using acc by (auto simp: accounted_def)
  with ok acc accounted_free_string [OF acc] String_Free show ?thesis
    by (cases p) (fastforce simp: sockd_string_free_def c_string_from_raw_def deref_def replying_def)+
qed

lemma accounted_start: "tidy st0 \<Longrightarrow> configs st0 = Map.empty \<Longrightarrow> accounted st0 no_holdings st0"
  by (simp add: accounted_def no_holdings_def)

lemma session_accounted:
  assumes "tidy st0" "configs st0 = Map.empty" "session L st0 led st"
  shows "accounted st0 led st"
  using assms(3)
proof induction
  case session_start
  show ?case using assms(1,2) by (rule accounted_start)
next
  case (session_call led st c r st')
  then show ?case using session_step by blast
next
  case (session_caller led st st')
  then have "quiet st st'" by (simp add: caller_moves_def quiet_def)
  with session_caller show ?case by (auto intro: accounted_quiet)
qed

section \<open>Ending a session\<close>

lemma accounted_finite:
  assumes "accounted st0 led st"
  shows "finite (held_configs led)" "finite (held_strings led)" "finite (dom (held_buffers led))"
proof -
  have fin: "finite (dom (configs st))" "finite (dom (strings st))" "finite (dom (buffers st))"
  proof -
    have "tidy st" using assms by (simp add: accounted_def)
    then show "finite (dom (configs st))" "finite (dom (strings st))" "finite (dom (buffers st))"
      using finite_subset [of _ "{..<next_addr st}"] by (simp_all add: tidy_def)
  qed
  show "finite (held_configs led)" using assms fin(1) by (simp add: accounted_def)
  show "finite (held_strings led)"
    using assms fin(2) by (auto simp: accounted_def intro: finite_subset)
  have "dom (held_buffers led) \<subseteq> dom (buffers st)" using assms by (force simp: accounted_def)
  with fin(3) show "finite (dom (held_buffers led))" by (rule finite_subset [rotated])
qed

definition holdings :: "ledger \<Rightarrow> nat" where
  "holdings led =
     card (held_configs led) + card (held_strings led) + card (dom (held_buffers led))"

text \<open>Freeing one thing held: a call that is allowed, answers and leaves one thing less.\<close>

lemma free_one:
  assumes acc: "accounted st0 led st" and some: "led \<noteq> no_holdings"
  shows "\<exists>c r st'. allowed led st c \<and> perform L c st = Ok r st' \<and> c_world st' = c_world st \<and>
           holdings (book c r st' led) < holdings led"
proof -
  note fin = accounted_finite [OF acc]
  consider a where "a \<in> held_configs led" | a where "a \<in> held_strings led"
    | a n where "held_buffers led a = Some n"
    using some by (cases led) (auto simp: no_holdings_def fun_eq_iff)
  then show ?thesis
  proof cases
    case 1
    then have "live (configs st) (Some a)" using acc by (intro accounted_live) simp_all
    with 1 fin card_Diff1_less [OF fin(1) 1] show ?thesis
      by (intro exI [of _ "Config_Free (Some a)"])
        (auto simp: sockd_client_config_free_def deref_def replying_def holdings_def)
  next
    case 2
    with acc have "strings st a \<noteq> None" by (auto simp: accounted_def)
    with 2 fin card_Diff1_less [OF fin(2) 2] show ?thesis
      by (intro exI [of _ "String_Free (Some a)"])
        (auto simp: sockd_string_free_def c_string_from_raw_def deref_def replying_def holdings_def)
  next
    case 3
    with accounted_buffer [OF acc] obtain b where "buffers st a = Some b" "length b = n" by blast
    moreover have "a \<in> dom (held_buffers led)" using 3 by auto
    ultimately show ?thesis
      using 3 card_Diff1_less [OF fin(3), of a]
      by (intro exI [of _ "Buffer_Free (Some a) n"])
        (auto simp: sockd_buffer_free_def vec_from_raw_parts_def deref_def replying_def holdings_def)
  qed
qed

lemma session_closes:
  assumes "tidy st0" "configs st0 = Map.empty" "session L st0 led st"
  shows "\<exists>st'. session L st0 no_holdings st' \<and> c_world st' = c_world st"
  using assms(3)
proof (induction "holdings led" arbitrary: led st rule: less_induct)
  case less
  note acc = session_accounted [OF assms(1,2) less.prems]
  show ?case
  proof (cases "led = no_holdings")
    case False
    from free_one [OF acc False, of L] obtain c r st' where "allowed led st c"
      "perform L c st = Ok r st'" "c_world st' = c_world st"
      "holdings (book c r st' led) < holdings led"
      by blast
    with less.hyps [of "book c r st' led" st'] session_call [OF less.prems] show ?thesis by metis
  qed (use less.prems in blast)
qed

section \<open>Pointers that are not held\<close>

lemma replying_Err_iff: "replying f m = Err x st \<longleftrightarrow> m = Err x st"
  by (cases m) (simp_all add: replying_def)

lemma stale_config:
  "configs st a = None \<Longrightarrow> config_mut (Some a) e st = Err Undefined st"
  by (simp add: config_mut_def deref_def)

section \<open>Properties\<close>

text \<open>C33: No sequence of calls by a program that follows its ledger has undefined behaviour: in any
  session, whatever the daemon answered, whatever other processes did and the program wrote in its
  own cells, an allowed call never dereferences a pointer to nothing.\<close>

theorem session_defined:
  assumes "tidy st0" "configs st0 = Map.empty" "session L st0 led st" "allowed led st c"
  shows "defined (perform L c st)"
  using session_step [OF session_accounted [OF assms(1-3)] assms(4)] by blast

text \<open>C32: Nothing is lost and nothing is kept back: at every point of a session the library holds
  exactly what the ledger says, buffers with the lengths it says, and the caller's own memory is as
  it was; and every session can be brought to an end by freeing what is held, which leaves exactly
  the memory it started with.\<close>

theorem session_memory:
  assumes "tidy st0" "configs st0 = Map.empty" "session L st0 led st"
  shows "dom (configs st) = held_configs led \<and>
     dom (strings st) = dom (strings st0) \<union> held_strings led \<and>
     dom (buffers st) = dom (buffers st0) \<union> dom (held_buffers led) \<and>
     (\<forall>a. strings st0 a \<noteq> None \<longrightarrow> a \<notin> held_strings led \<and> strings st a = strings st0 a) \<and>
     (\<forall>a. buffers st0 a \<noteq> None \<longrightarrow> held_buffers led a = None \<and> buffers st a = buffers st0 a) \<and>
     (\<forall>a n. held_buffers led a = Some n \<longrightarrow> (\<exists>b. buffers st a = Some b \<and> length b = n)) \<and>
     (\<exists>st'. session L st0 no_holdings st' \<and> configs st' = Map.empty \<and>
            strings st' = strings st0 \<and> buffers st' = buffers st0 \<and> c_world st' = c_world st)"
proof -
  have acc: "accounted st0 led st" using assms by (rule session_accounted)
  obtain st' where st': "session L st0 no_holdings st'" "c_world st' = c_world st"
    using session_closes [OF assms] by blast
  have "accounted st0 no_holdings st'" using assms(1,2) st'(1) by (rule session_accounted)
  then have "configs st' = Map.empty" "strings st' = strings st0" "buffers st' = buffers st0"
    by (auto simp: accounted_def no_holdings_def fun_eq_iff)
  moreover note accounted_dom [OF acc]
  moreover have "dom (configs st) = held_configs led" using acc by (simp add: accounted_def)
  ultimately show ?thesis
    using st' accounted_own [OF acc] accounted_buffer [OF acc] by blast
qed


section \<open>Witnesses\<close>

text \<open>A program that has created one configuration.\<close>

definition demo_program :: c_state where
  "demo_program = demo_c_state\<lparr>configs := Map.empty\<rparr>"

definition demo_created :: c_state where
  "demo_created = demo_program\<lparr>configs := [10 \<mapsto>
      \<lparr>f_socket_path = s2b ''/tmp/d'', f_pid_file = None, f_auto_start_program = None,
       f_auto_start_args = [], f_max_payload_len = DEFAULT_MAX_PAYLOAD_LEN,
       f_shutdown_timeout_ms = 2000\<rparr>], next_addr := 11\<rparr>"

definition demo_holdings :: ledger where
  "demo_holdings = no_holdings\<lparr>held_configs := {10}\<rparr>"

lemma demo_program_tidy: "tidy demo_program" "configs demo_program = Map.empty"
  by (auto simp: demo_program_def demo_c_state_def tidy_def split: if_splits)

lemma demo_session: "session L demo_program demo_holdings demo_created"
proof -
  have r: "perform L (Config_New (Some 2)) demo_program = Ok (Handle (Some 10)) demo_created"
    by (simp add: demo_program_def demo_c_state_def demo_created_def sockd_client_config_new_def
        c_string_def deref_def new_config_def replying_def demo_text_valid)
  have "allowed no_holdings demo_program (Config_New (Some 2))"
    by (simp add: demo_program_def demo_c_state_def)
  from session_call [OF session_start this r] show ?thesis
    by (simp add: demo_holdings_def no_holdings_def)
qed

theorem session_defined_witness:
  "defined (perform quiet_libc (Request_Call (Some 10) (Some 4) 2 (Some 5) (Some 7) (Some 6)) demo_created)"
  by (rule session_defined [OF demo_program_tidy demo_session])
    (simp add: demo_holdings_def demo_created_def demo_program_def demo_c_state_def
      readable_bytes_def)

theorem session_memory_witness:
  "\<exists>st'. session quiet_libc demo_program no_holdings st' \<and> configs st' = Map.empty \<and>
         strings st' = strings demo_program \<and> buffers st' = buffers demo_program"
  using session_memory [OF demo_program_tidy demo_session] by blast


end
