(* ===== verification/Unit_Tests.thy ===== *)
theory Unit_Tests imports Run_Queue Graceful_Shutdown Ffi_Sessions Programs begin

text \<open>
  The unit tests in \<^verbatim>\<open>src/daemon.rs\<close> and \<^verbatim>\<open>src/ffi.rs\<close>, which run a daemon in a thread of its own and
  talk to it. A test is a function of the world its thread lives in and of the result of the daemon's
  thread; it passes when it returns, and a failed assertion or an unwrapped error panics. The
  directory of the test is a parameter, as the \<^verbatim>\<open>tempfile\<close> crate chooses it.
\<close>

section \<open>Parts of a test\<close>

fun unwrap :: "('e, 'a, 'w) run \<Rightarrow> ('f, 'a, 'w) run" where
  "unwrap (Ok x w) = Ok x w"
| "unwrap (Err e w) = Panic w"
| "unwrap (Panic w) = Panic w"
| "unwrap Hang = Hang"

definition assert_that :: "bool \<Rightarrow> 'w \<Rightarrow> ('f, unit, 'w) run" where
  "assert_that b w = (if b then Ok () w else Panic w)"

definition join_ok :: "(unit, world) result \<Rightarrow> 'w \<Rightarrow> ('f, unit, 'w) run" where
  "join_ok daemon_result w = (case daemon_result of
      Ok _ _ \<Rightarrow> Ok () w | Err _ _ \<Rightarrow> Panic w | Panic _ \<Rightarrow> Panic w | Hang \<Rightarrow> Hang)"

text \<open>The daemon of both tests: it answers a request in upper case.\<close>

definition tested_daemon :: "path \<Rightarrow> path \<Rightarrow> duration \<Rightarrow> duration \<Rightarrow> error + unit daemon" where
  "tested_daemon sp pp idle interval =
     build
       (builder_on_request uppercase_handler
         (builder_poll_interval interval
           (builder_idle_timeout idle
             (builder_pid_file pp
               (builder_socket sp builder)))))"

section \<open>The daemon's test\<close>

partial_function (option) await_socket :: "path \<Rightarrow> nat \<Rightarrow> world \<Rightarrow> (unit, unit, world) run option" where
  "await_socket sp deadline w =
     (let w = snd (enter w) in
      if clock w < deadline then
        (case path_exists sp w of
           Ok found w \<Rightarrow>
             if found then Some (Ok () w)
             else
               (case sleep (from_millis 10) w of
                  Ok _ w \<Rightarrow> await_socket sp deadline w
                | other \<Rightarrow> Some other)
         | Err e w \<Rightarrow> Some (Err e w)
         | Panic w \<Rightarrow> Some (Panic w)
         | Hang \<Rightarrow> None)
      else Some (Ok () w))"

partial_function (option) connect_until :: "path \<Rightarrow> nat \<Rightarrow> world \<Rightarrow> (unit, stream, world) run option" where
  "connect_until sp deadline w =
     (case unix_connect sp w of
        Ok stream w \<Rightarrow> Some (Ok stream w)
      | Err err w \<Rightarrow>
          (let w = snd (enter w) in
           if clock w < deadline then
             (case sleep (from_millis 10) w of
                Ok _ w \<Rightarrow> connect_until sp deadline w
              | Err e w \<Rightarrow> Some (Err e w)
              | Panic w \<Rightarrow> Some (Panic w)
              | Hang \<Rightarrow> None)
           else Some (Panic w))
      | Panic w \<Rightarrow> Some (Panic w)
      | Hang \<Rightarrow> None)"

definition accepts_client_that_writes_after_connecting ::
  "libc \<Rightarrow> path \<Rightarrow> (unit, world) result \<Rightarrow> world \<Rightarrow> (unit, unit, world) run" where
  "accepts_client_that_writes_after_connecting L temp daemon_result w =
     (let sp = temp @ [s2b ''sockd.sock''];
          pp = temp @ [s2b ''sockd.pid''];
          c = with_pid_file (client_new sp) pp in
      and_then (now w) (\<lambda>t w.
      and_then (instant_add t (from_secs 1) w) (\<lambda>deadline w.
      and_then (unhang (await_socket sp deadline w)) (\<lambda>_ w.
      and_then (unhang (connect_until sp deadline w)) (\<lambda>stream w.
      and_then (sleep (from_millis 50) w) (\<lambda>_ w.
      case and_then (write_frame KRequest (s2b ''hello after connect'') stream)
             (\<lambda>_ stream. read_frame DEFAULT_MAX_PAYLOAD_LEN stream) of
        Ok response stream \<Rightarrow>
          map_state (close_stream stream)
            (and_then (assert_that (kind response = KResponse) w) (\<lambda>_ w.
             and_then (assert_that (payload response = s2b ''HELLO AFTER CONNECT'') w) (\<lambda>_ w.
             and_then (unwrap (shutdown c L w)) (\<lambda>stopped w.
             and_then (assert_that stopped w) (\<lambda>_ w.
             join_ok daemon_result w)))))
      | Err e stream \<Rightarrow> Panic (close_stream stream w)
      | Panic stream \<Rightarrow> Panic (close_stream stream w)
      | Hang \<Rightarrow> Hang))))))"

section \<open>The test of the C interface\<close>

partial_function (option) await_ping ::
  "client \<Rightarrow> libc \<Rightarrow> nat \<Rightarrow> world \<Rightarrow> (ffi_fault, unit, world) run option" where
  "await_ping c L deadline w =
     (let w = snd (enter w) in
      if clock w < deadline then
        (case ping c L w of
           Ok _ w \<Rightarrow> Some (Ok () w)
         | Err err w \<Rightarrow>
             (case sleep (from_millis 10) w of
                Ok _ w \<Rightarrow> await_ping c L deadline w
              | other \<Rightarrow> Some other)
         | Panic w \<Rightarrow> Some (Panic w)
         | Hang \<Rightarrow> None)
      else Some (Ok () w))"

definition at_world :: "(world \<Rightarrow> (ffi_fault, 'a, world) run) \<Rightarrow> c_state \<Rightarrow> 'a call" where
  "at_world f st = map_state (\<lambda>w. st\<lparr>c_world := w\<rparr>) (f (c_world st))"

text \<open>The test's own memory: the two path strings, the request's bytes and the four cells.\<close>

record ffi_locals =
  socket_c :: addr
  pid_c :: addr
  request_at :: addr
  error_cell :: addr
  response_ptr :: addr
  response_len :: addr
  stopped_cell :: addr

definition ffi_request_and_shutdown_round_trip ::
  "libc \<Rightarrow> path \<Rightarrow> ffi_locals \<Rightarrow> (unit, world) result \<Rightarrow> c_state \<Rightarrow> unit call" where
  "ffi_request_and_shutdown_round_trip L temp l daemon_result st =
     (let sp = temp @ [s2b ''ffi.sock''];
          pp = temp @ [s2b ''ffi.pid''];
          ready_client = with_pid_file (client_new sp) pp in
      and_then (at_world now st) (\<lambda>t st.
      and_then (at_world (instant_add t (from_secs 1)) st) (\<lambda>deadline st.
      and_then (at_world (\<lambda>w. unhang (await_ping ready_client L deadline w)) st) (\<lambda>_ st.
      and_then (sockd_client_config_new (Some (socket_c l)) st) (\<lambda>config st.
      and_then (assert_that (config \<noteq> None) st) (\<lambda>_ st.
      and_then (sockd_client_config_set_pid_file config (Some (pid_c l)) (Some (error_cell l)) st)
        (\<lambda>code st.
      and_then (assert_that (code = SOCKD_OK) st) (\<lambda>_ st.
      and_then (sockd_client_request L config (Some (request_at l)) 9 (Some (response_ptr l))
          (Some (response_len l)) (Some (error_cell l)) st) (\<lambda>code st.
      and_then (assert_that (code = SOCKD_OK) st) (\<lambda>_ st.
      and_then (deref (response_ptr l) (pointer_cells st) st) (\<lambda>ptr st.
      and_then (deref (response_len l) (size_cells st) st) (\<lambda>len st.
      and_then (case ptr of None \<Rightarrow> Err Undefined st
                | Some a \<Rightarrow> slice_from_raw_parts a (buffers st) len st) (\<lambda>response st.
      and_then (assert_that (response = s2b ''FFI HELLO'') st) (\<lambda>_ st.
      and_then (sockd_buffer_free ptr len st) (\<lambda>_ st.
      and_then (sockd_client_shutdown L config (Some (stopped_cell l)) (Some (error_cell l)) st)
        (\<lambda>code st.
      and_then (assert_that (code = SOCKD_OK) st) (\<lambda>_ st.
      and_then (deref (stopped_cell l) (bool_cells st) st) (\<lambda>stopped st.
      and_then (assert_that stopped st) (\<lambda>_ st.
      and_then (sockd_client_config_free config st) (\<lambda>_ st.
      join_ok daemon_result st))))))))))))))))))))"

section \<open>What the tests rely on\<close>

lemma enter_quiet: "sched w = ([], None) # s \<Longrightarrow> enter w = (None, w\<lparr>sched := s\<rparr>)"
  by (simp add: enter_def)

lemma leaving_later:
  assumes "leaving P w" "sched w = replicate n ([], None) @ s"
  shows "leaving P (w\<lparr>sched := s, dials := ds, clock := t\<rparr>)"
  using assms by (simp add: leaving_def fold_events_dials fold_events_sched fold_events_clock)

lemma fold_events_served:
  "fs (fold apply_event evs (w\<lparr>served := x\<rparr>)) = fs (fold apply_event evs w)"
proof (induction evs arbitrary: w)
  case (Cons e evs)
  have "apply_event e (w\<lparr>served := x\<rparr>) = (apply_event e w)\<lparr>served := x\<rparr>" by (cases e) simp_all
  with Cons show ?case by simp
qed simp

text \<open>A test's daemon and the connections it will find; its run returns.\<close>

definition test_daemon_side :: "libc \<Rightarrow> path set \<Rightarrow> unit daemon \<Rightarrow> world \<Rightarrow> bool" where
  "test_daemon_side L P d w \<longleftrightarrow>
     (\<exists>p. own_paths P p (socket_path (config d)) w \<and> pid_file (config d) = Some p \<and>
        claim_decision (\<lambda>q. pid_alive L q w) (file_content (fs w p)) \<in> {Take, Replace}) \<and>
     (\<forall>q v u. pid_alive L q v = pid_alive L q u) \<and> (\<forall>sig v. register_signal L sig v = Inr ()) \<and>
     bind_decision (fs w (socket_path (config d))) \<in> {BindFresh, BindReplace} \<and> sched w = []"

lemma test_daemon_run:
  assumes "test_daemon_side L P d w" "poll_contract L" "on_start d = Inr st"
    "0 < idle_timeout (config d)" "on_stop d = (\<lambda>_. Inr ())"
    "serve_all d st (backlog w) = Some (Inr (), st1, handled, rest)"
  shows "\<exists>v. run d L w = Ok () v \<and> fs v (socket_path (config d)) = None"
proof -
  obtain p where p: "own_paths P p (socket_path (config d)) w" "pid_file (config d) = Some p"
    "claim_decision (\<lambda>q. pid_alive L q w) (file_content (fs w p)) \<in> {Take, Replace}"
    and alive: "\<And>q v. pid_alive L q v = pid_alive L q w" and reg: "\<And>sig v. register_signal L sig v = Inr ()"
    and b: "bind_decision (fs w (socket_path (config d))) \<in> {BindFresh, BindReplace}" "sched w = []"
    using assms(1) unfolding test_daemon_side_def by metis
  from run_queue_final [OF p(1,2) alive reg p(3) b(1) assms(2,3) b(2) assms(4,6)] obtain v where
    "run d L w = lift_result (in_order [Inr (), stop_result d st1]) v"
    "gone P p (socket_path (config d)) w v" by blast
  then show ?thesis by (simp add: stop_result_def assms(5) gone_def)
qed

lemma tested_daemon_sel:
  assumes "tested_daemon sp pp idle interval = Inr d"
  shows "socket_path (config d) = sp" "pid_file (config d) = Some pp" "idle_timeout (config d) = idle"
    "max_payload_len (config d) = DEFAULT_MAX_PAYLOAD_LEN" "on_start d = Inr ()"
    "on_stop d = (\<lambda>_. Inr ())" "on_request d = uppercase_handler"
  using assms
  by (auto simp: tested_daemon_def build_def builder_on_request_def builder_poll_interval_def
      builder_idle_timeout_def builder_pid_file_def builder_socket_def builder_def
      default_daemon_config_def)

lemma hello_upper:
  "map to_ascii_uppercase (s2b ''hello after connect'') = s2b ''HELLO AFTER CONNECT''"
  "map to_ascii_uppercase (s2b ''ffi hello'') = s2b ''FFI HELLO''"
  by (simp_all add: s2b_def to_ascii_uppercase_def)

lemma still_live:
  "fs w p = Some (Sock i True) \<Longrightarrow> lookup p (w\<lparr>sched := s\<rparr>) = Inr (Sock i True)"
  by (simp add: lookup_plain)

section \<open>The daemon's test passes\<close>


section \<open>The test of the C interface passes\<close>

text \<open>An absolute path as text, and back.\<close>

definition path_text :: "path \<Rightarrow> rstring" where
  "path_text p = concat (map (\<lambda>c. 47 # c) p)"

definition proper_component :: "rstring \<Rightarrow> bool" where
  "proper_component c \<longleftrightarrow> c \<noteq> [] \<and> c \<noteq> [46] \<and> 47 \<notin> set c"

lemma split_slash_component: "47 \<notin> set c \<Longrightarrow> split_slash acc (c @ rest) = split_slash (acc @ c) rest"
  by (induction c arbitrary: acc) auto

lemma split_slash_path:
  "\<forall>c \<in> set p. proper_component c \<Longrightarrow> split_slash acc (path_text p) = acc # p"
proof (induction p arbitrary: acc)
  case (Cons c p)
  then show ?case
    using split_slash_component [of c "[]" "path_text p"]
    by (simp add: path_text_def proper_component_def)
qed (simp add: path_text_def)

lemma path_from_text: "\<forall>c \<in> set p. proper_component c \<Longrightarrow> path_from (path_text p) = p"
  by (simp add: path_from_def split_slash_path)
    (simp add: proper_component_def filter_id_conv)

text \<open>The test's locals point to its own objects: the two paths, the request and the cells.\<close>

definition locals_ready :: "path \<Rightarrow> ffi_locals \<Rightarrow> c_state \<Rightarrow> bool" where
  "locals_ready temp l st \<longleftrightarrow>
     (\<forall>c \<in> set temp. proper_component c) \<and>
     strings st (socket_c l) = Some (path_text (temp @ [s2b ''ffi.sock''])) \<and>
     strings st (pid_c l) = Some (path_text (temp @ [s2b ''ffi.pid''])) \<and>
     utf8_valid (path_text (temp @ [s2b ''ffi.sock''])) \<and>
     utf8_valid (path_text (temp @ [s2b ''ffi.pid''])) \<and>
     buffers st (request_at l) = Some (s2b ''ffi hello'') \<and>
     pointer_cells st (error_cell l) \<noteq> None \<and> pointer_cells st (response_ptr l) \<noteq> None \<and>
     size_cells st (response_len l) \<noteq> None \<and> bool_cells st (stopped_cell l) \<noteq> None \<and> tidy st"

text \<open>The test's memory, step by step, given what its three operations on the daemon return.\<close>

lemma ffi_test_memory:
  assumes "locals_ready temp l st"
    and "c = with_pid_file (client_new (temp @ [s2b ''ffi.sock''])) (temp @ [s2b ''ffi.pid''])"
    and "c_world st = w" "sched w = ([], None) # s" "clock w + from_secs 3 < 2 ^ 63 * 1000000000"
    and "unhang (await_ping c L (clock w + from_secs 1) (w\<lparr>sched := s\<rparr>)) = Ok () x1"
    and "request c L (s2b ''ffi hello'') x1 = Ok (s2b ''FFI HELLO'') u"
    and "shutdown c L u = Ok True v" "daemon_result = Ok () vd"
  shows "\<exists>st1. ffi_request_and_shutdown_round_trip L temp l daemon_result st = Ok () st1 \<and>
               c_world st1 = v \<and> configs st1 = configs st \<and> strings st1 = strings st \<and>
               buffers st1 = buffers st"
proof -
  let ?sp = "temp @ [s2b ''ffi.sock'']" and ?pp = "temp @ [s2b ''ffi.pid'']"
  let ?hello = "s2b ''ffi hello''" and ?HELLO = "s2b ''FFI HELLO''"
  have len: "length ?hello = 9" "length ?HELLO = 9" by (simp_all add: s2b_def)
  let ?a = "next_addr st"
  have loc: "strings st (socket_c l) = Some (path_text ?sp)" "utf8_valid (path_text ?sp)"
    "strings st (pid_c l) = Some (path_text ?pp)" "utf8_valid (path_text ?pp)"
    "buffers st (request_at l) = Some ?hello" "tidy st"
    using assms(1) by (auto simp: locals_ready_def)
  obtain qe qr n b where cells: "pointer_cells st (error_cell l) = Some qe"
    "pointer_cells st (response_ptr l) = Some qr" "size_cells st (response_len l) = Some n"
    "bool_cells st (stopped_cell l) = Some b"
    using assms(1) by (auto simp: locals_ready_def)
  have fresh: "configs st ?a = None" "buffers st (Suc ?a) = None"
    using loc(6) by (auto simp: tidy_def dom_def)
  define cfg where "cfg = \<lparr>f_socket_path = path_text ?sp, f_pid_file = Some (path_text ?pp),
      f_auto_start_program = None, f_auto_start_args = [],
      f_max_payload_len = DEFAULT_MAX_PAYLOAD_LEN, f_shutdown_timeout_ms = 2000\<rparr>"
  have "\<forall>x \<in> set ?sp. proper_component x" "\<forall>x \<in> set ?pp. proper_component x"
    using assms(1) by (auto simp: locals_ready_def proper_component_def s2b_def)
  then have client: "build_client cfg = c"
    by (simp add: cfg_def build_client_def path_from_text assms(2) with_pid_file_def client_new_def
        with_max_payload_len_def with_shutdown_timeout_def from_secs_def from_millis_def)
  define stA where "stA = st\<lparr>c_world := x1\<rparr>"
  have now: "at_world now st = Ok (clock w) (st\<lparr>c_world := w\<lparr>sched := s\<rparr>\<rparr>)"
    using assms(4) by (simp add: at_world_def now_def enter_def assms(3))
  have add: "at_world (instant_add (clock w) (from_secs 1)) y = Ok (clock w + from_secs 1) y" for y
    using assms(5) by (simp add: at_world_def instant_add_def from_secs_def)
  have ready: "at_world (\<lambda>w'. unhang (await_ping c L (clock w + from_secs 1) w'))
      (st\<lparr>c_world := w\<lparr>sched := s\<rparr>\<rparr>) = Ok () stA"
    using assms(6) by (simp add: at_world_def stA_def)
  define stB where "stB = stA\<lparr>configs := (configs st)(?a \<mapsto> cfg\<lparr>f_pid_file := None\<rparr>), next_addr := Suc ?a\<rparr>"
  define stC where "stC = stB\<lparr>configs := (configs st)(?a \<mapsto> cfg)\<rparr>"
  have new: "sockd_client_config_new (Some (socket_c l)) stA = Ok (Some ?a) stB"
    using loc by (simp add: sockd_client_config_new_def c_string_def deref_def new_config_def stA_def
        stB_def cfg_def)
  have pid: "sockd_client_config_set_pid_file (Some ?a) (Some (pid_c l)) (Some (error_cell l)) stB
      = Ok SOCKD_OK stC"
    using loc by (simp add: sockd_client_config_set_pid_file_def config_mut_def deref_def
        c_string_result_def c_string_def set_config_def stA_def stB_def stC_def cfg_def)
  define stD where "stD = stC\<lparr>c_world := u, buffers := (buffers st)(Suc ?a \<mapsto> ?HELLO),
      next_addr := Suc (Suc ?a), pointer_cells := (pointer_cells st)(response_ptr l \<mapsto> Some (Suc ?a)),
      size_cells := (size_cells st)(response_len l \<mapsto> 9)\<rparr>"
  have reqC: "sockd_client_request L (Some ?a) (Some (request_at l)) 9 (Some (response_ptr l))
      (Some (response_len l)) (Some (error_cell l)) stC = Ok SOCKD_OK stD"
    using loc cells len assms(7)
    by (simp add: sockd_client_request_def config_ref_def deref_def request_bytes_def
        slice_from_raw_parts_def operate_def client new_buffer_def set_pointer_def set_size_def
        stA_def stB_def stC_def stD_def numeral_eq_Suc)
  define stE where "stE = stD\<lparr>buffers := buffers st\<rparr>"
  have freed: "sockd_buffer_free (Some (Suc ?a)) 9 stD = Ok () stE"
    using fresh(2) len
    by (simp add: sockd_buffer_free_def vec_from_raw_parts_def deref_def stD_def stE_def fun_upd_idem)
  define stF where "stF = stE\<lparr>c_world := v, bool_cells := (bool_cells st)(stopped_cell l \<mapsto> True)\<rparr>"
  have stop: "sockd_client_shutdown L (Some ?a) (Some (stopped_cell l)) (Some (error_cell l)) stE
      = Ok SOCKD_OK stF"
    using cells assms(8)
    by (simp add: sockd_client_shutdown_def config_ref_def deref_def operate_def client set_bool_def
        stA_def stB_def stC_def stD_def stE_def stF_def)
  define stG where "stG = stF\<lparr>configs := configs st\<rparr>"
  have gone: "sockd_client_config_free (Some ?a) stF = Ok () stG"
    using fresh(1)
    by (simp add: sockd_client_config_free_def deref_def stB_def stC_def stD_def stE_def stF_def
        stG_def fun_upd_idem)
  have reads: "deref (response_ptr l) (pointer_cells stD) stD = Ok (Some (Suc ?a)) stD"
    "deref (response_len l) (size_cells stD) stD = Ok 9 stD"
    "slice_from_raw_parts (Suc ?a) (buffers stD) 9 stD = Ok ?HELLO stD"
    "deref (stopped_cell l) (bool_cells stF) stF = Ok True stF"
    using len by (simp_all add: deref_def slice_from_raw_parts_def stD_def stE_def stF_def)
  have "ffi_request_and_shutdown_round_trip L temp l daemon_result st = Ok () stG"
    unfolding ffi_request_and_shutdown_round_trip_def Let_def
    by (simp add: now add ready [unfolded assms(2)] new pid reqC freed stop gone reads assert_that_def
        join_ok_def assms(9) del: One_nat_def)
  moreover have "c_world stG = v" "configs stG = configs st" "strings stG = strings st"
    "buffers stG = buffers st"
    by (simp_all add: stA_def stB_def stC_def stD_def stE_def stF_def stG_def)
  ultimately show ?thesis by blast
qed

text \<open>C35: The test of the C interface passes: through the exported functions a C caller makes a
  configuration, sends a request to a running daemon, reads the answer in upper case, returns the
  buffer, stops the daemon and returns the configuration; the daemon's thread ends without error, the
  socket file is gone and the caller's memory holds nothing of the library's any more.\<close>

theorem ffi_test_passes:
  assumes "tested_daemon (temp @ [s2b ''ffi.sock'']) (temp @ [s2b ''ffi.pid'']) (from_secs 5)
             (from_millis 20) = Inr d"
    and "poll_contract L" "test_daemon_side L P d wd" "backlog wd = [dp, ds, sd]"
    and "joined d () KPing [] cp dp" "joined d () KRequest (s2b ''ffi hello'') cs ds"
    and "joined d () KShutdown [] sc sd"
    and "sched w = replicate 4 ([], None) @ ([], None) # s" "dials w = [cp, cs, sc]"
    and "fs w (temp @ [s2b ''ffi.sock'']) = Some (Sock i True)"
    and "c = with_pid_file (client_new (temp @ [s2b ''ffi.sock''])) (temp @ [s2b ''ffi.pid''])"
    and "leaving (watched c) w" "watchable c w"
    and "((length s + 2) div 3) * from_millis 20 \<le> from_secs 2" "clock w + from_secs 3 < 2 ^ 63 * 1000000000"
    and "c_world st = w" "locals_ready temp l st"
  shows "\<exists>st1. ffi_request_and_shutdown_round_trip L temp l (run d L wd) st = Ok () st1 \<and>
               fs (c_world st1) (temp @ [s2b ''ffi.sock'']) = None \<and>
               configs st1 = configs st \<and> strings st1 = strings st \<and> buffers st1 = buffers st"
proof -
  let ?sp = "temp @ [s2b ''ffi.sock'']" and ?pp = "temp @ [s2b ''ffi.pid'']"
    and ?q = "([], None) :: event list \<times> io_error option"
  let ?hello = "s2b ''ffi hello''" and ?HELLO = "s2b ''FFI HELLO''"
  note sel = tested_daemon_sel [OF assms(1)]
  have c: "c_socket_path c = ?sp" "c_shutdown_timeout c = from_secs 2"
    "c_max_payload_len c = DEFAULT_MAX_PAYLOAD_LEN"
    by (simp_all add: assms(11) with_pid_file_def client_new_def)
  have len: "length ?hello = 9" "length ?HELLO = 9" by (simp_all add: s2b_def)
  have sch: "sched w = ?q # ?q # ?q # ?q # ?q # s" using assms(8) by (simp add: numeral_eq_Suc)
  text \<open>The three connections, from both ends.\<close>
  define u1 u2 u3 where "u1 = w\<lparr>sched := ?q # ?q # ?q # s\<rparr>"
    and "u2 = w\<lparr>sched := ?q # ?q # s, dials := [cs, sc]\<rparr>"
    and "u3 = w\<lparr>sched := ?q # s, dials := [sc]\<rparr>"
  have con1: "connect (c_socket_path c) u1 = Ok cp u2"
    using still_live [OF assms(10)] assms(9) c(1)
    by (simp add: connect_def unix_connect_def syscall_def enter_def u1_def u2_def)
  from ping_joined [OF con1 assms(5)] obtain dp1 cp1 where
    ping: "process_connection d dp () = Ok Continue ((), dp1)" "try_ping_once c u1 = Ok () (close_stream cp1 u2)"
    by blast
  have con2: "connect (c_socket_path c) (close_stream cp1 u2) = Ok cs (close_stream cp1 u3)"
    using still_live [OF assms(10)] c(1)
    by (simp add: connect_def unix_connect_def syscall_def enter_def u2_def u3_def close_stream_def lookup_plain assms(10))
  have req: "on_request d () ?hello = (Inr ?HELLO, ())"
    by (simp add: sel uppercase_handler_def hello_upper)
  from request_joined [OF con2 assms(6) _ _ req] len sel(4) c(3) obtain ds1 cs1 where
    reqd: "process_connection d ds () = Ok Continue ((), ds1)"
    "send_request_once c ?hello (close_stream cp1 u2) = Ok ?HELLO (close_stream cs1 (close_stream cp1 u3))"
    by (auto simp: DEFAULT_MAX_PAYLOAD_LEN_def)
  obtain sd1 where "process_connection d sd () = Ok StopDaemon ((), sd1)"
    using shutdown_handled [OF assms(7)] by blast
  with ping(1) reqd(1) assms(4)
  have all: "serve_all d () (backlog wd) = Some (Inr (), (), [dp1, ds1, sd1], [])" by simp
  obtain vd where run: "run d L wd = Ok () vd"
    using test_daemon_run [OF assms(3,2) sel(5) _ sel(6) all] sel(3) by (auto simp: from_secs_def)
  define u where "u = close_stream cs1 (close_stream cp1 u3)"
  have "leaving (watched c) (w\<lparr>sched := ?q # s, dials := [sc], clock := clock w\<rparr>)"
    by (rule leaving_later [OF assms(12,8)])
  then have "leaving (watched c) u"
    by (simp add: u_def u3_def close_stream_def leaving_def fold_events_served)
  moreover have "watchable c u"
    using assms(13) by (simp add: watchable_def u_def u3_def close_stream_def)
  ultimately obtain v where v: "shutdown c L u = Ok True v" "fs v ?sp = None"
    using shutdown_round [of u s c i sc "[]" d "()" sd L] assms(7,10,14,15) c
    by (auto simp: u_def u3_def close_stream_def from_secs_def)
  have "unhang (await_ping c L (clock w + from_secs 1) (w\<lparr>sched := ?q # ?q # ?q # ?q # s\<rparr>))
      = Ok () (close_stream cp1 u2)"
  proof -
    have "clock u1 = clock w" by (simp add: u1_def)
    with ping(2) show ?thesis
      by (subst await_ping.simps) (simp add: enter_def u1_def [symmetric] ping_def from_secs_def)
  qed
  moreover have "request c L ?hello (close_stream cp1 u2) = Ok ?HELLO u"
    using reqd(2) by (simp add: request_def u_def)
  ultimately obtain st1 where
    "ffi_request_and_shutdown_round_trip L temp l (run d L wd) st = Ok () st1" "c_world st1 = v"
    "configs st1 = configs st" "strings st1 = strings st" "buffers st1 = buffers st"
    using ffi_test_memory [OF assms(17,11,16) sch assms(15) _ _ v(1) run] by blast
  with v(2) show ?thesis by blast
qed

section \<open>Witnesses\<close>

text \<open>The tests in the directory \<^verbatim>\<open>/tmp\<close>: the daemon finds its connections waiting, and removes its files
  while the client waits for it.\<close>

definition tests_dir :: path where
  "tests_dir = [s2b ''tmp'']"

definition daemon_side :: "stream list \<Rightarrow> world" where
  "daemon_side ss = (base_world [tests_dir \<mapsto> Dir])\<lparr>backlog := ss\<rparr>"

definition client_side :: "nat \<Rightarrow> path \<Rightarrow> path \<Rightarrow> stream list \<Rightarrow> world" where
  "client_side n sp pp ss =
     (base_world [tests_dir \<mapsto> Dir, sp \<mapsto> Sock 5 True, pp \<mapsto> File 3 (pid_line 9)])
       \<lparr>dials := ss,
        sched := replicate n ([], None) @
          ([], None) # [([DelNode sp], None), ([DelNode pp, ProcDown 9], None)]\<rparr>"

lemma daemon_side_ready:
  assumes "tested_daemon (tests_dir @ [x]) (tests_dir @ [y]) idle interval = Inr d" "x \<noteq> y"
  shows "test_daemon_side quiet_libc {tests_dir, tests_dir @ [x], tests_dir @ [y]} d (daemon_side ss)"
proof -
  note sel = tested_daemon_sel [OF assms(1)]
  have "own_paths {tests_dir, tests_dir @ [x], tests_dir @ [y]} (tests_dir @ [y]) (tests_dir @ [x])
      (daemon_side ss)"
    using assms(2)
    by (simp add: own_paths_def placed_def plain_entry_def daemon_side_def tests_dir_def)
  then show ?thesis
    by (simp add: test_daemon_side_def sel daemon_side_def tests_dir_def claim_decision_def
        model_libc_def pid_alive_def)
qed

lemma client_side_leaving:
  assumes "c = with_pid_file (client_new (tests_dir @ [x])) (tests_dir @ [y])" "x \<noteq> y"
  shows "leaving (watched c) (client_side n (tests_dir @ [x]) (tests_dir @ [y]) ss)"
    "watchable c (client_side n (tests_dir @ [x]) (tests_dir @ [y]) ss)"
  using assms(2)
  by (auto simp: leaving_def watched_def assms(1) with_pid_file_def client_new_def client_side_def
      fading_def tests_dir_def watchable_def)

lemma tested_daemon_built: "\<exists>d. tested_daemon sp pp idle interval = Inr d"
  by (simp add: tested_daemon_def build_def builder_on_request_def)

lemma tested_joined:
  assumes "tested_daemon sp pp idle interval = Inr d"
    and "(k, pl, rk, reply) \<in> {(KPing, [], KPong, []), (KShutdown, [], KShutdownAck, []),
      (KRequest, s2b ''hello after connect'', KResponse, s2b ''HELLO AFTER CONNECT''),
      (KRequest, s2b ''ffi hello'', KResponse, s2b ''FFI HELLO'')}"
  shows "joined d () k pl (fst (demo_ends k pl rk reply)) (snd (demo_ends k pl rk reply))"
proof -
  note sel = tested_daemon_sel [OF assms(1)]
  have "length pl \<le> max_payload_len (config d)" "length pl < 2 ^ 32" "length reply < 2 ^ 32"
    using assms(2) by (auto simp: sel(4) DEFAULT_MAX_PAYLOAD_LEN_def s2b_def)
  moreover obtain out where "answer d () \<lparr>kind = k, flags = 0, payload = pl\<rparr> = (rk, reply, out, ())"
    using assms(2) by (auto simp: answer_def sel(7) uppercase_handler_def hello_upper)
  ultimately show ?thesis by (auto simp: demo_ends_def intro!: demo_joined)
qed


definition tests_locals :: ffi_locals where
  "tests_locals = \<lparr>socket_c = 1, pid_c = 2, request_at = 3, error_cell = 4, response_ptr = 5,
     response_len = 6, stopped_cell = 7\<rparr>"

definition tests_memory :: "world \<Rightarrow> c_state" where
  "tests_memory w =
     \<lparr>c_world = w, configs = Map.empty,
      strings = [1 \<mapsto> path_text (tests_dir @ [s2b ''ffi.sock'']), 2 \<mapsto> path_text (tests_dir @ [s2b ''ffi.pid''])],
      arrays = Map.empty, buffers = [3 \<mapsto> s2b ''ffi hello''],
      pointer_cells = [4 \<mapsto> None, 5 \<mapsto> None], size_cells = [6 \<mapsto> 0], bool_cells = [7 \<mapsto> False],
      next_addr = 8\<rparr>"

lemma tests_locals_ready: "locals_ready tests_dir tests_locals (tests_memory w)"
proof -
  have "path_text (tests_dir @ [s2b ''ffi.sock'']) = s2b ''/tmp/ffi.sock''"
    "path_text (tests_dir @ [s2b ''ffi.pid'']) = s2b ''/tmp/ffi.pid''"
    by (simp_all add: path_text_def tests_dir_def s2b_def)
  moreover have "utf8_valid (s2b ''/tmp/ffi.sock'')" "utf8_valid (s2b ''/tmp/ffi.pid'')"
    by (rule s2b_ascii_valid, simp)+
  moreover have "\<forall>c \<in> set tests_dir. proper_component c"
    by (simp add: tests_dir_def proper_component_def s2b_def)
  moreover have "tidy (tests_memory w)"
    by (auto simp: tidy_def tests_memory_def split: if_splits)
  ultimately show ?thesis by (simp add: locals_ready_def tests_locals_def tests_memory_def)
qed

theorem ffi_test_passes_witness:
  "\<exists>d rd rs st1.
     tested_daemon (tests_dir @ [s2b ''ffi.sock'']) (tests_dir @ [s2b ''ffi.pid''])
       (from_secs 5) (from_millis 20) = Inr d \<and>
     ffi_request_and_shutdown_round_trip quiet_libc tests_dir tests_locals
       (run d quiet_libc (daemon_side rd))
       (tests_memory (client_side 4 (tests_dir @ [s2b ''ffi.sock'']) (tests_dir @ [s2b ''ffi.pid'']) rs))
       = Ok () st1 \<and> configs st1 = Map.empty"
proof -
  let ?sp = "tests_dir @ [s2b ''ffi.sock'']" and ?pp = "tests_dir @ [s2b ''ffi.pid'']"
  obtain d where d: "tested_daemon ?sp ?pp (from_secs 5) (from_millis 20) = Inr d"
    using tested_daemon_built by blast
  let ?p = "demo_ends KPing [] KPong []" and ?s = "demo_ends KShutdown [] KShutdownAck []"
    and ?r = "demo_ends KRequest (s2b ''ffi hello'') KResponse (s2b ''FFI HELLO'')"
  let ?w = "client_side 4 ?sp ?pp [fst ?p, fst ?r, fst ?s]" and ?wd = "daemon_side [snd ?p, snd ?r, snd ?s]"
  have ne: "s2b ''ffi.sock'' \<noteq> s2b ''ffi.pid''" by (simp add: s2b_def)
  have c: "with_pid_file (client_new ?sp) ?pp = with_pid_file (client_new ?sp) ?pp" ..
  have ends: "joined d () KPing [] (fst ?p) (snd ?p)"
    "joined d () KRequest (s2b ''ffi hello'') (fst ?r) (snd ?r)"
    "joined d () KShutdown [] (fst ?s) (snd ?s)"
    using tested_joined [OF d] by simp_all
  have sides: "backlog ?wd = [snd ?p, snd ?r, snd ?s]" "dials ?w = [fst ?p, fst ?r, fst ?s]"
    "sched ?w = replicate 4 ([], None) @ ([], None) # [([DelNode ?sp], None), ([DelNode ?pp, ProcDown 9], None)]"
    "fs ?w ?sp = Some (Sock 5 True)" "clock ?w + from_secs 3 < 2 ^ 63 * 1000000000"
    using ne by (simp_all add: daemon_side_def client_side_def tests_dir_def from_secs_def)
  have time: "((length [([DelNode ?sp], None), ([DelNode ?pp, ProcDown 9], None :: io_error option)] + 2) div 3)
      * from_millis 20 \<le> from_secs 2"
    by (simp add: from_secs_def from_millis_def)
  have mem: "c_world (tests_memory ?w) = ?w" "configs (tests_memory ?w) = Map.empty"
    by (simp_all add: tests_memory_def)
  from ffi_test_passes [OF d model_poll.poll_contract_axioms daemon_side_ready [OF d ne] sides(1)
      ends sides(3,2,4) c client_side_leaving [OF c ne] time sides(5) mem(1) tests_locals_ready] d
  show ?thesis unfolding mem(2) by blast
qed

end
