(* ===== verification/Spec2Isabelle.thy ===== *)
theory Spec2Isabelle
  imports Auto_Start Graceful_Shutdown Program_Properties Partial_IO Claim_Race Run_Queue Ffi_Sessions Unit_Tests
begin

text \<open>
  A verification development for \<^verbatim>\<open>sockd\<close>, a Rust crate with which a program becomes a daemon on a
  Unix domain socket: a single-threaded server with a PID file, an idle timeout and a clean
  shutdown, a client that can start the daemon on demand, a C interface to the client, a test
  daemon, and two example programs. Every function of the crate is modelled, and its unit tests are.

  \<^bold>\<open>The program and its model.\<close> Files under \<^verbatim>\<open>src/\<close> unless another directory is named.

    \<^item> \<^verbatim>\<open>frame.rs\<close>, theory \<open>Frame\<close>: the frame kinds, the twelve-byte header, \<^verbatim>\<open>read_frame\<close> and
      \<^verbatim>\<open>write_frame\<close> over any \<^verbatim>\<open>Read\<close> and \<^verbatim>\<open>Write\<close>. A stream is the list of what its reads and writes will
      answer: chunks of any size, errors, interruptions, end of file, silence. Theory \<open>Partial_IO\<close> has
      the same two functions over an arbitrary reader and writer, given by their own \<^verbatim>\<open>read\<close> and \<^verbatim>\<open>write\<close>,
      the reader and writer of the unit tests, and these tests.
    \<^item> \<^verbatim>\<open>error.rs\<close>, theory \<open>Errors\<close>: the error type, its messages and its sources.
    \<^item> \<^verbatim>\<open>pidfile.rs\<close>, theories \<open>Pidfile\<close> and \<open>Claim_Race\<close>: the exclusive claim of the PID file with its
      three attempts, its guard, reading it, and whether a process lives. \<open>Claim_Race\<close> cuts the claim
      into single system calls and interleaves any number of claimers.
    \<^item> \<^verbatim>\<open>socket.rs\<close>, theory \<open>Socket\<close>: connect, bind with the recovery of a stale socket file, clean-up.
    \<^item> \<^verbatim>\<open>config.rs\<close> and \<^verbatim>\<open>process.rs\<close>, theories \<open>Config\<close> and \<open>Process\<close>: the configurations with their
      defaults and builder methods, and the start of a detached process.
    \<^item> \<^verbatim>\<open>daemon.rs\<close>, theory \<open>Daemon\<close>: the builder, the handling of one connection, the accept loop,
      the event loop, and \<^verbatim>\<open>run\<close> from the signal flag to the release of the PID file. The
      application's callbacks are functions on its state, which the loops thread along.
    \<^item> \<^verbatim>\<open>client.rs\<close>, theory \<open>Client\<close>: \<^verbatim>\<open>ping\<close>, \<^verbatim>\<open>request\<close>, \<^verbatim>\<open>shutdown\<close>, the recovery that starts the
      daemon, and the two waiting loops.
    \<^item> \<^verbatim>\<open>ffi.rs\<close>, theory \<open>Ffi\<close>: every exported C function over an explicit memory in which a bad
      dereference is an outcome of its own. Theory \<open>Ffi_Sessions\<close> has the calls of a C program as data and
      the sequences of calls it may make.
    \<^item> \<^verbatim>\<open>bin/sockd_test_daemon.rs\<close>, \<^verbatim>\<open>examples/echo_daemon.rs\<close> and \<^verbatim>\<open>examples/echo_client.rs\<close>, theory
      \<open>Programs\<close>: the argument loops, the environment, what is printed.
    \<^item> the unit tests of \<^verbatim>\<open>daemon.rs\<close> and \<^verbatim>\<open>ffi.rs\<close>, theory \<open>Unit_Tests\<close>: a test is a function of the world of
      its thread and of the result of the daemon's thread.

  \<^bold>\<open>State, errors, time and other processes.\<close> Theory \<open>Prelude\<close> has the outcome of a Rust function:
  a value, an error, a panic, or never returning, each but the last with the state it leaves; the
  question mark operator is \<open>and_then\<close>. Theory \<open>World\<close> is what the crate sees of the operating
  system through the standard library: the file system as a map from paths to nodes with inode
  numbers and symbolic links, the clock, waiting connections, the shutdown flag, and a trace of the
  actions that matter. There is one function per system call. Interference is data: \<open>sched\<close> lists
  for each call to come what other processes do before it and the error with which it fails, if any.
  A theorem over all worlds thus covers every interleaving and every failure; a theorem about quiet
  circumstances says so with \<open>calm\<close>, which still lets everything happen elsewhere. \<open>Rust_Text\<close> has the
  parts of Rust's strings the crate uses (decimal numbers, trimming, UTF-8 validation and repair,
  durations); a string is its bytes. Numbers that wrap or are cut (header fields, PIDs, the poll
  timeout) are words of their width; \<^verbatim>\<open>usize\<close> lengths and durations in nanoseconds are natural
  numbers, with the crate's own limits written out.

  \<^bold>\<open>Code that is not in the repository.\<close> The \<^verbatim>\<open>libc\<close> and \<^verbatim>\<open>signal_hook\<close> crates are a parameter, a
  record of four functions (\<^verbatim>\<open>kill\<close>, \<^verbatim>\<open>poll\<close>, \<^verbatim>\<open>setsid\<close>, signal registration). What the event loop needs
  of \<^verbatim>\<open>poll\<close> is the locale \<open>poll_contract\<close>, as POSIX documents it; \<open>Fixtures\<close> interprets it on a
  concrete function, which the witnesses use.

  \<^bold>\<open>Interfaces.\<close> \<open>fixed_codec\<close> (both round trips of a fixed-width field) is what frames rely on; it is
  interpreted on the big-endian integers and on the header. \<open>lossless_reader\<close> and \<open>lossless_writer\<close>
  are what \<^verbatim>\<open>Read\<close> and \<^verbatim>\<open>Write\<close> promise a framed exchange; they are interpreted on the streams and on
  the tests' reader and writer. \<open>call_relation\<close> has the laws of a relation between worlds that every
  call which only consumes events respects; \<open>clock_relation\<close> adds the one for waiting, \<open>wait_relation\<close>
  that for accepting connections, \<open>env_relation\<close> and then \<open>world_relation\<close> those for calls that change
  files, \<open>client_relation\<close> is what a client needs and \<open>loop_relation\<close> all of it. The operations' lemmas are proved once inside them and reach each component through the
  interpretations for the clock, the trace, the started processes, the process's identity, the
  remaining events, the arrivals, the waiting connections, and the files nobody touches.

  \<^bold>\<open>What is proved.\<close>
    \<^item> Framing (\<open>Frame\<close>): header encoding and decoding are inverse; \<^verbatim>\<open>read_frame\<close> does what a parser of
      byte strings does, however the bytes arrive; frames written under partial writes are read back
      under partial reads; limits and absence of panics; what is on the wire after a failed write.
      Whatever a reader or writer does, a stream explains it (\<open>Partial_IO\<close>), so these theorems hold for
      every \<^verbatim>\<open>Read\<close> and \<^verbatim>\<open>Write\<close>; the frame tests pass.
    \<^item> Ownership (\<open>Pidfile\<close>, \<open>Socket\<close>, \<open>Claim_Race\<close>): \<^verbatim>\<open>claim\<close> and \<^verbatim>\<open>bind\<close> implement their contracts
      (\<open>claim_decision\<close>, \<open>bind_decision\<close>) on every kind of entry; their effects whatever interferes; a
      live owner keeps every later claimer out. With several claimers at once the number of owners
      is bounded by the removals plus one, and two owners are possible.
    \<^item> Daemon (\<open>Daemon_Laws\<close>, \<open>Daemon_Run\<close>, \<open>Daemon_Properties\<close>): the loops as step relations; one answer
      per connection; connections are served in order of arrival with the state threaded through
      (a refinement of a fold over the connections); why the loop ends, and that it and the whole run
      do; the order of the actions of a run under all failures; a quiet run leaves nothing behind and
      can be repeated. \<open>Run_Queue\<close>: a run is the function \<open>serve_all\<close> of the connections it finds, and each
      of its clients gets the handler's answer in the state its predecessors left. Two theorems show
      where a single client stops the daemon.
    \<^item> Client (\<open>Client_Properties\<close>): when a process is started and what is retried; how long the
      loops wait; what \<^verbatim>\<open>shutdown\<close> answers when nothing runs.
    \<^item> Both ends (\<open>End_To_End\<close>, \<open>Auto_Start\<close>, \<open>Graceful_Shutdown\<close>): a request reaches the handler
      unchanged and its answer the caller; a request that has to start the daemon succeeds as soon
      as the daemon listens; a shutdown is acknowledged and waited for until the files are gone.
    \<^item> C interface (\<open>Ffi_Properties\<close>): no undefined behaviour for callers that keep the rules; what is
      handed out can be freed; failing setters change nothing; agreement with the Rust builder.
      \<open>Ffi_Sessions\<close>: over any sequence of calls by a program that keeps the rules, no call is undefined
      and the library's memory is exactly what the program still has to give back; a stale pointer is
      undefined behaviour.
    \<^item> Programs (\<open>Program_Properties\<close>): arguments written for options are read back; bad arguments stop
      the program before it touches anything; an auto-started test daemon listens where its client
      looks; the two examples agree and echo. The unit tests of the daemon and of the C interface pass
      (\<open>Unit_Tests\<close>).

  \<^bold>\<open>Bounds and fuel.\<close> Nothing is cut off by fuel. Loops that may not end are partial functions whose
  not returning is a value, and that they end is a theorem of its own. Path lookup follows at most
  forty symbolic links, as Linux does. The claim makes three attempts, as the source does, which are
  at most seventeen system calls; Rust panics when a deadline does not fit its clock, which is kept as
  the bound of \<open>instant_add\<close>.

  \<^bold>\<open>Not modelled.\<close> The integration tests under \<^verbatim>\<open>tests/\<close>; module declarations and
  attributes (\<^verbatim>\<open>lib.rs\<close>); the earlier C program under \<^verbatim>\<open>reference/\<close> and the Python and Swift examples,
  which the crate does not use. A path is its sequence of components from the root, so relative paths
  are those of a process whose working directory is the root, and the difference between a path and
  its normal form is not visible; permissions appear only as errors calls may return. A write to a
  file is complete or fails as a whole, and running out of memory or of file descriptors appears
  only as such an error. A boxed error is its message. What the redirected standard streams of a
  started process carry is not visible, and the started process itself acts only through the events
  of the world. Closing a descriptor cannot fail. The daemon and its clients
  live in worlds of their own, joined by the bytes of their connections. Dropping a value during a panic is modelled where
  the program relies on it (the guard and the listener in \<^verbatim>\<open>run\<close>), not inside the callbacks.
\<close>

end
